theory Spec2Isabelle
  imports Complex_Main
begin

section \<open>Hybrid search with ColBERT reranking (n8n code node)\<close>

text \<open>
  The node under study is the "Hybrid Search with ColBERT Reranking" code node
  (\<^verbatim>\<open>src/unnamed/part_002\<close>). It reads \<^verbatim>\<open>query\<close>, \<^verbatim>\<open>collection_name\<close> and
  \<^verbatim>\<open>top_k\<close> from its input item, awaits three embedding requests, awaits one
  fused query against Qdrant, and reranks the returned points with the inline
  function \<^verbatim>\<open>colbertScore\<close>.
\<close>

subsection \<open>JavaScript numbers\<close>

text \<open>
  A JavaScript number is an IEEE 754 double. A finite double is modelled by the real
  number it denotes, next to the three special values. Every arithmetic operation
  returns the exact result rounded to the nearest double, ties to the even mantissa,
  and an infinity when the rounded result leaves the range. The sign of zero is not
  represented. \<^verbatim>\<open>undefined\<close> used as an operand of \<^verbatim>\<open>*\<close> or \<^verbatim>\<open>+\<close> converts to
  \<^verbatim>\<open>NaN\<close>.
\<close>

datatype jsnum = Num real | PosInf | NegInf | NaN

text \<open>Rounding a real to an integer, a tie going to the even neighbour.\<close>

definition rhe :: "real \<Rightarrow> int" where
  "rhe y =
     (let f = \<lfloor>y\<rfloor>; d = y - of_int f
      in if d < 1 / 2 then f else if 1 / 2 < d then f + 1 else if even f then f else f + 1)"

text \<open>
  The binary exponent of a non-zero real, not below \<open>-1022\<close>: below \<open>2\<^bsup>-1022\<^esup>\<close> the
  doubles are subnormal and keep the spacing \<open>2\<^bsup>-1074\<^esup>\<close>.
\<close>

definition expo :: "real \<Rightarrow> int" where
  "expo x = max \<lfloor>log 2 \<bar>x\<bar>\<rfloor> (- 1022)"

text \<open>
  The double nearest to a real: a mantissa of 53 bits, that is a multiple of
  \<open>2\<^bsup>expo x - 52\<^esup>\<close>; a rounded magnitude of \<open>2\<^bsup>1024\<^esup>\<close> or more is an infinity.
\<close>

definition rd :: "real \<Rightarrow> jsnum" where
  "rd x =
     (if x = 0 then Num 0
      else (let q = 2 powi (expo x - 52); v = of_int (rhe (x / q)) * q
            in if 2 ^ 1024 \<le> \<bar>v\<bar> then (if 0 < x then PosInf else NegInf) else Num v))"

text \<open>
  The double that a decimal literal of the source, or of a JSON body, denotes
  (for a literal inside the range).
\<close>

definition dbl :: "real \<Rightarrow> real" where
  "dbl x = (case rd x of Num v \<Rightarrow> v | _ \<Rightarrow> 0)"

text \<open>The integer multiples of \<open>2\<^bsup>-1074\<^esup>\<close>: every finite double is one of them.\<close>

definition dgrid :: "real set" where
  "dgrid = range (\<lambda>m::int. real_of_int m * 2 powi (- 1074))"

fun jneg :: "jsnum \<Rightarrow> jsnum" where
  "jneg (Num a) = Num (- a)"
| "jneg PosInf = NegInf"
| "jneg NegInf = PosInf"
| "jneg NaN = NaN"

fun jadd :: "jsnum \<Rightarrow> jsnum \<Rightarrow> jsnum" where
  "jadd (Num a) (Num b) = rd (a + b)"
| "jadd NaN y = NaN"
| "jadd x NaN = NaN"
| "jadd PosInf NegInf = NaN"
| "jadd NegInf PosInf = NaN"
| "jadd PosInf y = PosInf"
| "jadd x PosInf = PosInf"
| "jadd NegInf y = NegInf"
| "jadd x NegInf = NegInf"

definition jsub :: "jsnum \<Rightarrow> jsnum \<Rightarrow> jsnum" where
  "jsub x y = jadd x (jneg y)"

fun jmul :: "jsnum \<Rightarrow> jsnum \<Rightarrow> jsnum" where
  "jmul (Num a) (Num b) = rd (a * b)"
| "jmul NaN y = NaN"
| "jmul x NaN = NaN"
| "jmul (Num a) y = (if a = 0 then NaN else if 0 < a then y else jneg y)"
| "jmul x (Num b) = (if b = 0 then NaN else if 0 < b then x else jneg x)"
| "jmul PosInf y = y"
| "jmul NegInf y = jneg y"

text \<open>
  Division. A zero divisor is read as \<^verbatim>\<open>+0\<close>: the node divides by a value that
  passed \<^verbatim>\<open>denom === 0 ? ... :\<close> or by an array length.
\<close>

fun jdiv :: "jsnum \<Rightarrow> jsnum \<Rightarrow> jsnum" where
  "jdiv (Num a) (Num b) =
     (if b = 0 then (if a = 0 then NaN else if 0 < a then PosInf else NegInf)
      else rd (a / b))"
| "jdiv NaN y = NaN"
| "jdiv x NaN = NaN"
| "jdiv (Num a) y = Num 0"
| "jdiv x (Num b) = (if 0 \<le> b then x else jneg x)"
| "jdiv x y = NaN"

text \<open>\<^verbatim>\<open>Math.sqrt\<close>, taken as the correctly rounded square root of IEEE 754.\<close>

fun jsqrt :: "jsnum \<Rightarrow> jsnum" where
  "jsqrt (Num a) = (if a < 0 then NaN else rd (sqrt a))"
| "jsqrt PosInf = PosInf"
| "jsqrt NegInf = NaN"
| "jsqrt NaN = NaN"

text \<open>\<^verbatim>\<open>Math.max\<close> of two arguments: \<^verbatim>\<open>NaN\<close> as soon as one argument is.\<close>

fun jmax :: "jsnum \<Rightarrow> jsnum \<Rightarrow> jsnum" where
  "jmax (Num a) (Num b) = Num (max a b)"
| "jmax NaN y = NaN"
| "jmax x NaN = NaN"
| "jmax PosInf y = PosInf"
| "jmax x PosInf = PosInf"
| "jmax NegInf y = y"
| "jmax x NegInf = x"

text \<open>The comparison \<^verbatim>\<open>x > y\<close>: false as soon as one operand is \<^verbatim>\<open>NaN\<close>.\<close>

fun jgt :: "jsnum \<Rightarrow> jsnum \<Rightarrow> bool" where
  "jgt (Num a) (Num b) = (b < a)"
| "jgt NaN y = False"
| "jgt x NaN = False"
| "jgt PosInf PosInf = False"
| "jgt PosInf y = True"
| "jgt x PosInf = False"
| "jgt NegInf y = False"
| "jgt x NegInf = True"

subsection \<open>The scoring function \<^verbatim>\<open>colbertScore\<close>\<close>

text \<open>
  A token vector arrives as a JSON array of numbers, each parsed to a double. Reading \<^verbatim>\<open>v[i]\<close> past the end
  of the array gives \<^verbatim>\<open>undefined\<close>, which the arithmetic turns into \<^verbatim>\<open>NaN\<close>.
\<close>

definition idx :: "real list \<Rightarrow> nat \<Rightarrow> jsnum" where
  "idx v i = (if i < length v then Num (v ! i) else NaN)"

text \<open>
  The innermost loop, \<^verbatim>\<open>for (let i = 0; i < qv.length; i++)\<close>, updates the three
  accumulators \<^verbatim>\<open>dot\<close>, \<^verbatim>\<open>qNorm\<close>, \<^verbatim>\<open>dNorm\<close>.
\<close>

definition sim_step :: "real list \<Rightarrow> real list \<Rightarrow> nat \<Rightarrow> jsnum \<times> jsnum \<times> jsnum \<Rightarrow> jsnum \<times> jsnum \<times> jsnum" where
  "sim_step qv dv i acc =
     (case acc of (dot, qNorm, dNorm) \<Rightarrow>
        (jadd dot (jmul (idx qv i) (idx dv i)),
         jadd qNorm (jmul (idx qv i) (idx qv i)),
         jadd dNorm (jmul (idx dv i) (idx dv i))))"

definition sim_loop :: "real list \<Rightarrow> real list \<Rightarrow> jsnum \<times> jsnum \<times> jsnum" where
  "sim_loop qv dv = fold (sim_step qv dv) [0..<length qv] (Num 0, Num 0, Num 0)"

text \<open>The value \<^verbatim>\<open>sim\<close> of one pass of the middle loop.\<close>

definition sim :: "real list \<Rightarrow> real list \<Rightarrow> jsnum" where
  "sim qv dv =
     (case sim_loop qv dv of (dot, qNorm, dNorm) \<Rightarrow>
        (let denom = jmul (jsqrt qNorm) (jsqrt dNorm)
         in if denom = Num 0 then Num 0 else jdiv dot denom))"

text \<open>The middle loop: \<^verbatim>\<open>maxSim\<close> starts at \<^verbatim>\<open>-Infinity\<close>.\<close>

definition maxSim :: "real list list \<Rightarrow> real list \<Rightarrow> jsnum" where
  "maxSim dVecs qv = fold (\<lambda>dv m. jmax m (sim qv dv)) dVecs NegInf"

text \<open>The outer loop and the final division by \<^verbatim>\<open>qVecs.length\<close>.\<close>

definition colbertScore :: "real list list \<Rightarrow> real list list \<Rightarrow> jsnum" where
  "colbertScore qVecs dVecs =
     jdiv (fold (\<lambda>qv total. jadd total (maxSim dVecs qv)) qVecs (Num 0))
          (Num (real (length qVecs)))"

subsection \<open>Points, payloads and scored results\<close>

text \<open>
  A point of the index response: \<^verbatim>\<open>{ id, score, payload }\<close>. A field that is
  missing or \<^verbatim>\<open>null\<close> is \<open>None\<close>; an array, even an empty one, is \<open>Some\<close>.
\<close>

record payload =
  pl_text :: "string option"
  colbert_embedding :: "real list list option"

record point =
  p_id :: nat
  p_score :: real
  p_payload :: "payload option"

text \<open>One element of \<^verbatim>\<open>results\<close>.\<close>

record scored =
  r_id :: nat
  r_text :: "string option"
  hybrid_score :: real
  colbert_score :: jsnum
  final_score :: jsnum

text \<open>
  The predicate of \<^verbatim>\<open>.filter(c => c.payload && c.payload.colbert_embedding)\<close>.
  An object and an array are truthy, \<^verbatim>\<open>undefined\<close> and \<^verbatim>\<open>null\<close> are not.
\<close>

definition has_colbert :: "point \<Rightarrow> bool" where
  "has_colbert c =
     (case p_payload c of None \<Rightarrow> False | Some p \<Rightarrow> colbert_embedding p \<noteq> None)"

text \<open>
  The two literals \<^verbatim>\<open>0.4\<close> and \<^verbatim>\<open>0.6\<close> of the line that computes \<^verbatim>\<open>final_score\<close>:
  the doubles nearest to the two decimal fractions.
\<close>

definition fusedWeight :: real where
  "fusedWeight = dbl (4 / 10)"

definition lateInteractionWeight :: real where
  "lateInteractionWeight = dbl (6 / 10)"

definition final_of :: "real \<Rightarrow> jsnum \<Rightarrow> jsnum" where
  "final_of score colbScore =
     jadd (jmul (Num score) (Num fusedWeight)) (jmul colbScore (Num lateInteractionWeight))"

text \<open>
  The body of \<^verbatim>\<open>.map(c => ...)\<close>. It runs on points that passed the filter only,
  so both \<open>the\<close> are applied to \<open>Some\<close>.
\<close>

definition score_point :: "real list list \<Rightarrow> point \<Rightarrow> scored" where
  "score_point queryColbert c =
     (let colbScore = colbertScore queryColbert (the (colbert_embedding (the (p_payload c))))
      in \<lparr> r_id = p_id c,
           r_text = pl_text (the (p_payload c)),
           hybrid_score = p_score c,
           colbert_score = colbScore,
           final_score = final_of (p_score c) colbScore \<rparr>)"

text \<open>The comparator \<^verbatim>\<open>(a, b) => b.final_score - a.final_score\<close>.\<close>

definition compare_final :: "scored \<Rightarrow> scored \<Rightarrow> jsnum" where
  "compare_final a b = jsub (final_score b) (final_score a)"

text \<open>
  \<^verbatim>\<open>Array.prototype.sort\<close> is a stable sort: \<open>a\<close> stays before \<open>b\<close> unless the
  comparator returns a value greater than zero (\<^verbatim>\<open>NaN\<close> counts as zero). The model
  is a stable insertion sort. When some comparison involves \<^verbatim>\<open>NaN\<close> the comparator
  is not consistent and ECMAScript leaves the order to the engine; the model then
  gives one admissible permutation.
\<close>

fun sort_insert :: "('a \<Rightarrow> 'a \<Rightarrow> jsnum) \<Rightarrow> 'a \<Rightarrow> 'a list \<Rightarrow> 'a list" where
  "sort_insert cmp x [] = [x]"
| "sort_insert cmp x (y # ys) =
     (if jgt (cmp x y) (Num 0) then y # sort_insert cmp x ys else x # y # ys)"

definition js_sort :: "('a \<Rightarrow> 'a \<Rightarrow> jsnum) \<Rightarrow> 'a list \<Rightarrow> 'a list" where
  "js_sort cmp xs = foldr (sort_insert cmp) xs []"

text \<open>
  \<^verbatim>\<open>xs.slice(0, k)\<close> for an integer \<open>k\<close>: a negative \<open>k\<close> counts from the end.
\<close>

definition slice0 :: "'a list \<Rightarrow> int \<Rightarrow> 'a list" where
  "slice0 xs k = (if k < 0 then take (nat (int (length xs) + k)) xs else take (nat k) xs)"

text \<open>The chain \<^verbatim>\<open>filter\<close>, \<^verbatim>\<open>map\<close>, \<^verbatim>\<open>sort\<close>, \<^verbatim>\<open>slice\<close>, in its three stages.\<close>

definition scored_candidates :: "real list list \<Rightarrow> point list \<Rightarrow> scored list" where
  "scored_candidates queryColbert candidates =
     map (score_point queryColbert) (filter has_colbert candidates)"

definition ranked :: "real list list \<Rightarrow> point list \<Rightarrow> scored list" where
  "ranked queryColbert candidates =
     js_sort compare_final (scored_candidates queryColbert candidates)"

definition rerank :: "real list list \<Rightarrow> point list \<Rightarrow> int \<Rightarrow> scored list" where
  "rerank queryColbert candidates topK = slice0 (ranked queryColbert candidates) topK"

subsection \<open>The node\<close>

record node_input =
  query :: string
  collection_name :: "string option"
  top_k :: "int option"

text \<open>\<^verbatim>\<open>collection_name || 'hybrid_demo'\<close>: the empty string is falsy too.\<close>

definition collectionName :: "node_input \<Rightarrow> string" where
  "collectionName inp =
     (case collection_name inp of
        None \<Rightarrow> ''hybrid_demo''
      | Some s \<Rightarrow> if s = [] then ''hybrid_demo'' else s)"

text \<open>\<^verbatim>\<open>top_k || 3\<close>: zero is falsy.\<close>

definition topK :: "node_input \<Rightarrow> int" where
  "topK inp = (case top_k inp of None \<Rightarrow> 3 | Some k \<Rightarrow> if k = 0 then 3 else k)"

text \<open>The factor in \<^verbatim>\<open>topK * 5\<close>, written three times in the request body.\<close>

definition candidateMultiplier :: int where
  "candidateMultiplier = 5"

record sparse =
  sp_indices :: "nat list"
  sp_values :: "real list"

text \<open>The body of the request to \<^verbatim>\<open>/collections/<name>/points/query\<close>.\<close>

record qdrant_request =
  collection :: string
  fusion :: string
  dense_query :: "real list option"
  dense_using :: string
  dense_limit :: int
  sparse_query :: sparse
  sparse_using :: string
  sparse_limit :: int
  limit :: int
  with_payload :: bool

datatype request =
  OllamaEmbeddings string
| Bm25Embed string
| ColbertEmbed string
| QdrantQuery qdrant_request

record qresult =
  points :: "point list option"

record qresponse =
  result :: "qresult option"

text \<open>
  A call of \<^verbatim>\<open>this.helpers.httpRequest\<close> either throws or returns the parsed body.
  The four services are parameters of the model. An embedding service returns the
  field \<^verbatim>\<open>embedding\<close> of its body, \<open>None\<close> when the body has none.
\<close>

datatype error = RequestFailed | TypeError

record backend =
  ollama :: "string \<Rightarrow> error + real list option"
  fastembed_bm25 :: "string \<Rightarrow> error + sparse option"
  fastembed_colbert :: "string \<Rightarrow> error + real list list option"
  qdrant :: "qdrant_request \<Rightarrow> error + qresponse"

definition search_request :: "node_input \<Rightarrow> real list option \<Rightarrow> sparse \<Rightarrow> qdrant_request" where
  "search_request inp queryDense queryBm25 =
     \<lparr> collection = collectionName inp,
       fusion = ''rrf'',
       dense_query = queryDense,
       dense_using = ''dense'',
       dense_limit = topK inp * candidateMultiplier,
       sparse_query = \<lparr> sp_indices = sp_indices queryBm25, sp_values = sp_values queryBm25 \<rparr>,
       sparse_using = ''bm25'',
       sparse_limit = topK inp * candidateMultiplier,
       limit = topK inp * candidateMultiplier,
       with_payload = True \<rparr>"

text \<open>
  \<^verbatim>\<open>searchData.result && searchData.result.points ? searchData.result.points : []\<close>
\<close>

definition candidates_of :: "qresponse \<Rightarrow> point list" where
  "candidates_of searchData =
     (case result searchData of
        None \<Rightarrow> []
      | Some r \<Rightarrow> (case points r of None \<Rightarrow> [] | Some ps \<Rightarrow> ps))"

text \<open>
  The reranking chain on the response of the ColBERT service. \<^verbatim>\<open>colbertScore\<close>
  iterates over \<^verbatim>\<open>queryColbert\<close>, so an absent \<^verbatim>\<open>embedding\<close> is a \<^verbatim>\<open>TypeError\<close> as
  soon as one point passes the filter.
\<close>

definition results_of :: "real list list option \<Rightarrow> point list \<Rightarrow> int \<Rightarrow> error + scored list" where
  "results_of queryColbert candidates k =
     (if filter has_colbert candidates = [] then Inr []
      else (case queryColbert of
              None \<Rightarrow> Inl TypeError
            | Some qVecs \<Rightarrow> Inr (rerank qVecs candidates k)))"

record node_output =
  o_query :: string
  results :: "scored list"
  method_name :: string
  num_candidates :: nat
  num_results :: nat

text \<open>
  The node, top to bottom. The first component lists the requests issued, in the
  order of issue; each \<^verbatim>\<open>await\<close> ends before the next statement runs, and a thrown
  error ends the node. Reading \<^verbatim>\<open>queryBm25.indices\<close> throws when the BM25 body has
  no \<^verbatim>\<open>embedding\<close>.
\<close>

definition search :: "backend \<Rightarrow> node_input \<Rightarrow> request list \<times> (error + node_output)" where
  "search B inp =
     (let r1 = OllamaEmbeddings (query inp);
          r2 = Bm25Embed (query inp);
          r3 = ColbertEmbed (query inp)
      in case ollama B (query inp) of
           Inl e \<Rightarrow> ([r1], Inl e)
         | Inr queryDense \<Rightarrow>
        (case fastembed_bm25 B (query inp) of
           Inl e \<Rightarrow> ([r1, r2], Inl e)
         | Inr bm25Data \<Rightarrow>
        (case fastembed_colbert B (query inp) of
           Inl e \<Rightarrow> ([r1, r2, r3], Inl e)
         | Inr queryColbert \<Rightarrow>
        (case bm25Data of
           None \<Rightarrow> ([r1, r2, r3], Inl TypeError)
         | Some queryBm25 \<Rightarrow>
        (let r4 = search_request inp queryDense queryBm25
         in case qdrant B r4 of
              Inl e \<Rightarrow> ([r1, r2, r3, QdrantQuery r4], Inl e)
            | Inr searchData \<Rightarrow>
           (let candidates = candidates_of searchData
            in case results_of queryColbert candidates (topK inp) of
                 Inl e \<Rightarrow> ([r1, r2, r3, QdrantQuery r4], Inl e)
               | Inr rs \<Rightarrow>
                   ([r1, r2, r3, QdrantQuery r4],
                    Inr \<lparr> o_query = query inp,
                          results = rs,
                          method_name = ''hybrid_with_colbert_reranking'',
                          num_candidates = length candidates,
                          num_results = length rs \<rparr>)))))))"

subsection \<open>The scoring rule in the words of the specification\<close>

text \<open>
  The specification describes the score as
  \<open>(1/|Q|) * \<Sum>\<^bsub>q\<in>Q\<^esub> max\<^bsub>d\<in>D\<^esub> cos(q, d)\<close>, the cosine of a pairing with a zero-norm
  vector being \<open>0\<close>. The following definitions follow these words, over the reals
  and with exact operations; they are compared with \<open>colbertScore\<close> below.
\<close>

definition spec_dot :: "real list \<Rightarrow> real list \<Rightarrow> real" where
  "spec_dot q d = (\<Sum>i = 0..<length q. q ! i * d ! i)"

definition spec_norm :: "real list \<Rightarrow> real" where
  "spec_norm v = sqrt (\<Sum>i = 0..<length v. v ! i * v ! i)"

definition spec_cos :: "real list \<Rightarrow> real list \<Rightarrow> real" where
  "spec_cos q d =
     (if spec_norm q = 0 \<or> spec_norm d = 0 then 0
      else spec_dot q d / (spec_norm q * spec_norm d))"

definition spec_score :: "real list list \<Rightarrow> real list list \<Rightarrow> real" where
  "spec_score Q D = (\<Sum>q\<leftarrow>Q. Max (spec_cos q ` set D)) / real (length Q)"

text \<open>
  The same formula with every operation in double arithmetic: products and sums
  from left to right, one square root per norm, one division per cosine, one division
  by the number of query vectors. The cosine is \<open>0\<close> when the product of the two
  rounded norms is \<open>0\<close>. The maximum is that of \<^verbatim>\<open>Math.max\<close>: \<^verbatim>\<open>NaN\<close> when one
  argument is, \<^verbatim>\<open>-Infinity\<close> without arguments.
\<close>

definition dbl_dot :: "real list \<Rightarrow> real list \<Rightarrow> jsnum" where
  "dbl_dot q d = foldl jadd (Num 0) (map2 (\<lambda>x y. jmul (Num x) (Num y)) q d)"

definition dbl_cos :: "real list \<Rightarrow> real list \<Rightarrow> jsnum" where
  "dbl_cos q d =
     (let denom = jmul (jsqrt (dbl_dot q q)) (jsqrt (dbl_dot d d))
      in if denom = Num 0 then Num 0 else jdiv (dbl_dot q d) denom)"

fun nums :: "jsnum list \<Rightarrow> real list" where
  "nums [] = []"
| "nums (Num a # xs) = a # nums xs"
| "nums (x # xs) = nums xs"

definition jmax_list :: "jsnum list \<Rightarrow> jsnum" where
  "jmax_list xs =
     (if NaN \<in> set xs then NaN
      else if PosInf \<in> set xs then PosInf
      else if nums xs = [] then NegInf
      else Num (Max (set (nums xs))))"

definition dbl_score :: "real list list \<Rightarrow> real list list \<Rightarrow> jsnum" where
  "dbl_score Q D =
     jdiv (foldl jadd (Num 0) (map (\<lambda>q. jmax_list (map (dbl_cos q) D)) Q))
          (Num (real (length Q)))"

text \<open>
  The order the specification asks of the output: final score descending, then
  late-interaction score descending, then id ascending.
\<close>

definition spec_before :: "scored \<Rightarrow> scored \<Rightarrow> bool" where
  "spec_before a b =
     (jgt (final_score a) (final_score b) \<or>
      (final_score a = final_score b \<and>
       (jgt (colbert_score a) (colbert_score b) \<or>
        (colbert_score a = colbert_score b \<and> r_id a \<le> r_id b))))"

text \<open>
  A number of the model lies on the grid of doubles when it is not finite or is a
  multiple of \<open>2\<^bsup>-1074\<^esup>\<close>. Every result of an addition does.
\<close>

definition on_grid :: "jsnum \<Rightarrow> bool" where
  "on_grid x = (\<forall>v. x = Num v \<longrightarrow> v \<in> dgrid)"

subsection \<open>Concrete inputs\<close>

text \<open>Small inputs on which the node is evaluated further down.\<close>

definition ex_point :: "nat \<Rightarrow> real \<Rightarrow> real list list option \<Rightarrow> point" where
  "ex_point i s e =
     \<lparr> p_id = i, p_score = s,
       p_payload = Some \<lparr> pl_text = Some ''doc'', colbert_embedding = e \<rparr> \<rparr>"

definition ex_sparse :: sparse where
  "ex_sparse = \<lparr> sp_indices = [3], sp_values = [1] \<rparr>"

definition ex_response :: "point list \<Rightarrow> qresponse" where
  "ex_response ps = \<lparr> result = Some \<lparr> points = Some ps \<rparr> \<rparr>"

definition ex_backend :: "real list list option \<Rightarrow> qresponse \<Rightarrow> backend" where
  "ex_backend qc resp =
     \<lparr> ollama = (\<lambda>prompt. Inr (Some [1, 0])),
       fastembed_bm25 = (\<lambda>texts. Inr (Some ex_sparse)),
       fastembed_colbert = (\<lambda>texts. Inr qc),
       qdrant = (\<lambda>body. Inr resp) \<rparr>"

definition ex_services ::
  "error + real list option \<Rightarrow> error + sparse option \<Rightarrow> error + real list list option \<Rightarrow> backend" where
  "ex_services dense bm25 colbert =
     \<lparr> ollama = (\<lambda>prompt. dense),
       fastembed_bm25 = (\<lambda>texts. bm25),
       fastembed_colbert = (\<lambda>texts. colbert),
       qdrant = (\<lambda>body. Inr (ex_response [])) \<rparr>"

definition ex_input :: "string \<Rightarrow> int option \<Rightarrow> node_input" where
  "ex_input q k = \<lparr> query = q, collection_name = None, top_k = k \<rparr>"

definition ex_two :: "point list" where
  "ex_two = [ex_point 1 1 (Some [[1]]), ex_point 2 0 (Some [[1]])]"

definition ex_four :: "point list" where
  "ex_four = [ex_point 1 1 (Some [[1]]), ex_point 2 1 (Some [[1]]),
              ex_point 3 0 (Some [[1]]), ex_point 4 0 (Some [[1]])]"

definition ex_scored :: "nat \<Rightarrow> real \<Rightarrow> jsnum \<Rightarrow> jsnum \<Rightarrow> scored" where
  "ex_scored i h c f =
     \<lparr> r_id = i, r_text = Some ''doc'', hybrid_score = h, colbert_score = c, final_score = f \<rparr>"

definition ex_requests :: "node_input \<Rightarrow> request list" where
  "ex_requests inp =
     [OllamaEmbeddings (query inp), Bm25Embed (query inp), ColbertEmbed (query inp),
      QdrantQuery (search_request inp (Some [1, 0]) ex_sparse)]"

definition ex_output :: "string \<Rightarrow> scored list \<Rightarrow> nat \<Rightarrow> node_output" where
  "ex_output q rs n =
     \<lparr> o_query = q, results = rs, method_name = ''hybrid_with_colbert_reranking'',
       num_candidates = n, num_results = length rs \<rparr>"

text \<open>
  The doubles that the literals \<^verbatim>\<open>1e200\<close> and \<^verbatim>\<open>1e-200\<close> denote.
\<close>

definition ex_huge :: real where
  "ex_huge = 5883593420661338 * 2 ^ 612"

definition ex_tiny :: real where
  "ex_tiny = 6894565328877484 / 2 ^ 717"

section \<open>Properties\<close>

subsection \<open>Rounding to the nearest double\<close>

lemma rhe_of_int: "rhe (of_int m) = m"
  by (simp add: rhe_def)

lemma rhe_unique:
  assumes "\<bar>y - of_int m\<bar> < 1 / 2"
  shows "rhe y = m"
proof -
  have "\<lfloor>y\<rfloor> = m \<or> \<lfloor>y\<rfloor> = m - 1" using assms by (auto simp: floor_eq_iff) 
  then show ?thesis
  proof
    assume f: "\<lfloor>y\<rfloor> = m"
    then have "y - of_int m < 1 / 2" using assms by linarith
    with f show ?thesis by (simp add: rhe_def Let_def)
  next
    assume f: "\<lfloor>y\<rfloor> = m - 1"
    have "real_of_int (m - 1) = real_of_int m - 1" by simp
    then have "1 / 2 < y - of_int (m - 1)" using assms by linarith
    with f show ?thesis by (simp only: rhe_def Let_def) simp
  qed
qed

lemma rhe_error: "\<bar>of_int (rhe y) - y\<bar> \<le> 1 / 2"
  unfolding rhe_def Let_def by (auto; linarith)

lemma rhe_ge1: "1 \<le> y \<Longrightarrow> 1 \<le> rhe y"
proof -
  assume "1 \<le> y"
  then have "1 \<le> \<lfloor>y\<rfloor>" by linarith
  then show ?thesis by (auto simp: rhe_def Let_def)
qed

lemma rhe_nonpos: "y \<le> 0 \<Longrightarrow> rhe y \<le> 0"
proof -
  assume y: "y \<le> 0"
  show ?thesis
  proof (cases "y = 0")
    case True then show ?thesis by (simp add: rhe_def)
  next
    case False
    with y have "\<lfloor>y\<rfloor> \<le> - 1" by linarith
    then show ?thesis by (auto simp: rhe_def Let_def)
  qed
qed

lemma floor_log2_eq:
  assumes "2 powi e \<le> \<bar>x\<bar>" "\<bar>x\<bar> < 2 powi (e + 1)"
  shows "\<lfloor>log 2 \<bar>x\<bar>\<rfloor> = e"
proof -
  have pos: "0 < \<bar>x\<bar>" using assms(1) by (smt (verit) zero_less_power_int)
  have a: "2 powr (real_of_int e) = (2::real) powi e"
    using powr_real_of_int' [of 2 e] by simp
  have b: "2 powr (real_of_int e + 1) = (2::real) powi (e + 1)"
    using powr_real_of_int' [of 2 "e + 1"] by simp
  show ?thesis
    using floor_log_eq_powr_iff [of "\<bar>x\<bar>" 2 e] pos assms by (simp add: a b)
qed

lemma expo_eq:
  assumes "2 powi e \<le> \<bar>x\<bar>" "\<bar>x\<bar> < 2 powi (e + 1)" "- 1022 \<le> e"
  shows "expo x = e"
  using floor_log2_eq [OF assms(1,2)] assms(3) by (simp add: expo_def)

lemma expo_ge: "- 1022 \<le> expo x"
  by (simp add: expo_def)

lemma rd_eval:
  assumes "2 powi e \<le> \<bar>x\<bar>" "\<bar>x\<bar> < 2 powi (e + 1)" "- 1022 \<le> e"
    and "rhe (x / 2 powi (e - 52)) = m"
    and "\<bar>real_of_int m * 2 powi (e - 52)\<bar> < 2 ^ 1024"
  shows "rd x = Num (of_int m * 2 powi (e - 52))"
proof -
  have "x \<noteq> 0" using assms(1) by (smt (verit) zero_less_power_int)
  then show ?thesis
    using assms(4,5) by (simp add: rd_def expo_eq [OF assms(1-3)] Let_def)
qed

lemma pow_floor_log: "0 < x \<Longrightarrow> 2 powi \<lfloor>log 2 x\<rfloor> \<le> x"
proof -
  assume x: "0 < x"
  have a: "2 powr (real_of_int \<lfloor>log 2 x\<rfloor>) = (2::real) powi \<lfloor>log 2 x\<rfloor>"
    using powr_real_of_int' [of 2 "\<lfloor>log 2 x\<rfloor>"] by simp
  show ?thesis
    using floor_log_eq_powr_iff [of x 2 "\<lfloor>log 2 x\<rfloor>"] x by (simp add: a)
qed

lemma quantum_le:
  assumes "2 powi (- 1074) \<le> \<bar>x\<bar>"
  shows "2 powi (expo x - 52) \<le> \<bar>x\<bar>"
proof (cases "\<lfloor>log 2 \<bar>x\<bar>\<rfloor> \<le> - 1022")
  case True
  then have "expo x = - 1022" by (simp add: expo_def)
  with assms show ?thesis by simp
next
  case False
  then have e: "expo x = \<lfloor>log 2 \<bar>x\<bar>\<rfloor>" by (simp add: expo_def)
  have pos: "0 < \<bar>x\<bar>" using assms by (smt (verit) zero_less_power_int)
  have "(2::real) powi (expo x - 52) \<le> 2 powi (expo x)"
    by (rule power_int_increasing) simp_all
  also have "\<dots> \<le> \<bar>x\<bar>" unfolding e using pos by (rule pow_floor_log)
  finally show ?thesis .
qed

lemma rd_pos:
  assumes "2 powi (- 1074) \<le> x"
  shows "jgt (rd x) (Num 0)"
proof -
  have x: "0 < x" using assms by (smt (verit) zero_less_power_int)
  let ?q = "(2::real) powi (expo x - 52)"
  have q: "0 < ?q" by simp
  have "?q \<le> x" using quantum_le [of x] assms x by simp
  then have "1 \<le> x / ?q" using q by (simp add: le_divide_eq)
  then have "1 \<le> rhe (x / ?q)" by (rule rhe_ge1)
  then have "0 < real_of_int (rhe (x / ?q)) * ?q" using q by simp
  then show ?thesis using x by (simp add: rd_def Let_def)
qed

lemma rd_nonpos:
  assumes "x \<le> 0"
  shows "\<not> jgt (rd x) (Num 0)"
proof (cases "x = 0")
  case True
  then show ?thesis by (simp add: rd_def)
next
  case False
  let ?q = "(2::real) powi (expo x - 52)"
  have q: "0 < ?q" by simp
  have "x / ?q \<le> 0" using assms q by (simp add: divide_le_0_iff)
  then have "rhe (x / ?q) \<le> 0" by (rule rhe_nonpos)
  then have "real_of_int (rhe (x / ?q)) * ?q \<le> 0" using q by (simp add: mult_le_0_iff)
  then show ?thesis using assms False by (simp add: rd_def Let_def)
qed

lemma rd_grid:
  assumes "rd x = Num y"
  shows "y \<in> dgrid"
proof (cases "x = 0")
  case True
  with assms have "y = real_of_int 0 * 2 powi (- 1074)" by (simp add: rd_def)
  then show ?thesis unfolding dgrid_def by blast
next
  case False
  let ?e = "expo x"
  let ?m = "rhe (x / 2 powi (?e - 52))"
  have y: "y = real_of_int ?m * 2 powi (?e - 52)"
    using assms False by (simp add: rd_def Let_def split: if_splits)
  have "0 \<le> ?e + 1022" using expo_ge [of x] by simp
  then have "(2::real) powi (?e + 1022) = real_of_int (2 ^ nat (?e + 1022))"
    by (simp add: power_int_def)
  moreover have "(2::real) powi (?e - 52) = 2 powi (?e + 1022) * 2 powi (- 1074)"
    using power_int_add [of "2::real" "?e + 1022" "- 1074"] by simp
  ultimately have "y = real_of_int (?m * 2 ^ nat (?e + 1022)) * 2 powi (- 1074)"
    using y by simp
  then show ?thesis unfolding dgrid_def by blast
qed

lemma rd_sub_pos_iff:
  assumes "a \<in> dgrid" "b \<in> dgrid"
  shows "jgt (rd (b - a)) (Num 0) = (a < b)"
proof (cases "a < b")
  case True
  define h :: real where "h = 2 powi (- 1074)"
  have h: "0 < h" by (simp only: h_def zero_less_power_int zero_less_numeral)
  obtain ma mb :: int where m: "a = real_of_int ma * h" "b = real_of_int mb * h"
    using assms unfolding dgrid_def h_def by blast
  have "ma < mb" using True h unfolding m by (simp add: mult_less_cancel_right)
  then have "1 \<le> real_of_int (mb - ma)" by simp
  then have "1 * h \<le> real_of_int (mb - ma) * h"
    using h by (intro mult_right_mono) simp_all
  also have "\<dots> = b - a" unfolding m by (simp add: algebra_simps)
  finally have "2 powi (- 1074) \<le> b - a" by (simp only: h_def mult_1)
  then show ?thesis using True rd_pos [of "b - a"] by simp
next
  case False
  then show ?thesis using rd_nonpos [of "b - a"] by simp
qed

lemma rd_0: "rd 0 = Num 0" by (simp add: rd_def)

lemma rd_1: "rd 1 = Num 1"
  using rd_eval [of 0 1 "2 ^ 52"] rhe_of_int [of "2 ^ 52"] by simp

lemma rd_2: "rd 2 = Num 2"
  using rd_eval [of 1 2 "2 ^ 52"] rhe_of_int [of "2 ^ 52"] by simp

lemma rd_04: "rd (4 / 10) = Num (7205759403792794 / 2 ^ 54)"
  using rd_eval [of "- 2" "4 / 10" 7205759403792794] by (simp add: rhe_def)

lemma rd_06: "rd (6 / 10) = Num (5404319552844595 / 2 ^ 53)"
  using rd_eval [of "- 1" "6 / 10" 5404319552844595] by (simp add: rhe_def)

lemma rd_085: "rd (85 / 100) = Num (7656119366529843 / 2 ^ 53)"
  using rd_eval [of "- 1" "85 / 100" 7656119366529843] by (simp add: rhe_def)

lemma rd_092: "rd (92 / 100) = Num (8286623314361713 / 2 ^ 53)"
  using rd_eval [of "- 1" "92 / 100" 8286623314361713] by (simp add: rhe_def)

lemma rd_0892: "rd (892 / 1000) = Num (8034421735228965 / 2 ^ 53)"
  using rd_eval [of "- 1" "892 / 1000" 8034421735228965] by (simp add: rhe_def)

lemma rd_w1: "rd (7205759403792794 / 2 ^ 54) = Num (7205759403792794 / 2 ^ 54)"
  using rd_eval [of "- 2" "7205759403792794 / 2 ^ 54" 7205759403792794] by (simp add: rhe_def)

lemma rd_w2: "rd (5404319552844595 / 2 ^ 53) = Num (5404319552844595 / 2 ^ 53)"
  using rd_eval [of "- 1" "5404319552844595 / 2 ^ 53" 5404319552844595] by (simp add: rhe_def)

lemma rd_p1: "rd (7656119366529843 / 2 ^ 53 * (7205759403792794 / 2 ^ 54)) = Num (6124895493223875 / 2 ^ 54)"
  using rd_eval [of "- 2" "7656119366529843 / 2 ^ 53 * (7205759403792794 / 2 ^ 54)" 6124895493223875] by (simp add: rhe_def)

lemma rd_p2: "rd (8286623314361713 / 2 ^ 53 * (5404319552844595 / 2 ^ 53)) = Num (4971973988617028 / 2 ^ 53)"
  using rd_eval [of "- 1" "8286623314361713 / 2 ^ 53 * (5404319552844595 / 2 ^ 53)" 4971973988617028] by (simp add: rhe_def)

lemma rd_s: "rd (6124895493223875 / 2 ^ 54 + 4971973988617028 / 2 ^ 53) = Num (8034421735228966 / 2 ^ 53)"
  using rd_eval [of "- 1" "6124895493223875 / 2 ^ 54 + 4971973988617028 / 2 ^ 53" 8034421735228966] by (simp add: rhe_def)

lemma rhe_sqrt2: "rhe (sqrt 2 * 2 ^ 52) = 6369051672525773"
proof (rule rhe_unique)
  have "sqrt (2 ^ 105) = sqrt 2 * 2 ^ 52"
    by (rule real_sqrt_unique) (simp_all add: power_mult_distrib)
  then have e: "sqrt 2 * 2 ^ 52 = sqrt (2 ^ 105)" by simp
  have lo: "6369051672525773 - 1 / 2 < sqrt (2 ^ 105)"
    by (rule real_less_rsqrt) (simp add: power2_eq_square)
  have hi: "sqrt (2 ^ 105) < 6369051672525773 + 1 / 2"
    by (rule real_less_lsqrt) (simp_all add: power2_eq_square)
  show "\<bar>sqrt 2 * 2 ^ 52 - real_of_int 6369051672525773\<bar> < 1 / 2"
    unfolding e using lo hi by (simp only: of_int_numeral)
qed

lemma rd_sqrt2: "rd (sqrt 2) = Num (6369051672525773 / 2 ^ 52)"
proof -
  have a: "1 \<le> sqrt 2" by simp
  have b: "sqrt 2 < 2" by (rule real_less_lsqrt) simp_all
  show ?thesis
    using rd_eval [of 0 "sqrt 2" 6369051672525773] a b rhe_sqrt2 by simp
qed

lemma rd_sq: "rd (6369051672525773 / 2 ^ 52 * (6369051672525773 / 2 ^ 52)) = Num (4503599627370497 / 2 ^ 51)"
  using rd_eval [of 1 "6369051672525773 / 2 ^ 52 * (6369051672525773 / 2 ^ 52)" 4503599627370497] by (simp add: rhe_def)

lemma rd_q: "rd (2 / (4503599627370497 / 2 ^ 51)) = Num (9007199254740990 / 2 ^ 53)"
  using rd_eval [of "- 1" "2 / (4503599627370497 / 2 ^ 51)" 9007199254740990] by (simp add: rhe_def)

lemma rd_m: "rd (- (7205759403792794 / 2 ^ 54)) = Num (- (7205759403792794 / 2 ^ 54))"
  using rd_eval [of "- 2" "- (7205759403792794 / 2 ^ 54)" "- 7205759403792794"] by (simp add: rhe_def)

lemma rd_error:
  assumes "rd x = Num v"
  shows "\<bar>v - x\<bar> \<le> \<bar>x\<bar> / 2 ^ 53 + 2 powi (- 1075)"
proof (cases "x = 0")
  case True
  with assms show ?thesis by (simp add: rd_def)
next
  case False
  define q :: real where "q = 2 powi (expo x - 52)"
  have q: "0 < q" unfolding q_def by simp
  have v: "v = real_of_int (rhe (x / q)) * q"
    using assms False by (simp add: rd_def Let_def q_def split: if_splits)
  have "v - x = (real_of_int (rhe (x / q)) - x / q) * q"
    unfolding v using q by (simp add: field_simps)
  then have "\<bar>v - x\<bar> = \<bar>real_of_int (rhe (x / q)) - x / q\<bar> * q"
    using q by (simp add: abs_mult)
  also have "\<dots> \<le> 1 / 2 * q"
    using rhe_error [of "x / q"] q by (intro mult_right_mono) simp_all
  finally have err: "\<bar>v - x\<bar> \<le> q / 2" by simp
  show ?thesis
  proof (cases "\<lfloor>log 2 \<bar>x\<bar>\<rfloor> \<le> - 1022")
    case True
    then have "expo x = - 1022" by (simp add: expo_def)
    then have "q / 2 = 2 powi (- 1075)"
      unfolding q_def using power_int_add [of "2::real" "- 1074" "- 1"] by simp
    with err have "\<bar>v - x\<bar> \<le> 2 powi (- 1075)" by simp
    moreover have "0 \<le> \<bar>x\<bar> / 2 ^ 53" by simp
    ultimately show ?thesis by linarith
  next
    case False
    then have e: "expo x = \<lfloor>log 2 \<bar>x\<bar>\<rfloor>" by (simp add: expo_def)
    have "q = 2 powi (expo x) * 2 powi (- 52)"
      unfolding q_def using power_int_add [of "2::real" "expo x" "- 52"] by simp
    moreover have "2 powi (expo x) \<le> \<bar>x\<bar>"
      unfolding e using \<open>x \<noteq> 0\<close> by (intro pow_floor_log) simp
    ultimately have "q \<le> \<bar>x\<bar> * 2 powi (- 52)"
      by (simp add: mult_right_mono)
    then have "q / 2 \<le> \<bar>x\<bar> / 2 ^ 53" by (simp add: power_int_minus field_simps)
    moreover have "0 \<le> (2::real) powi (- 1075)" by simp
    ultimately show ?thesis using err by linarith
  qed
qed

lemma rhe_ge_int: "of_int n \<le> y \<Longrightarrow> n \<le> rhe y"
proof -
  assume "of_int n \<le> y"
  then have "n \<le> \<lfloor>y\<rfloor>" by (simp add: le_floor_iff)
  then show ?thesis by (auto simp: rhe_def Let_def)
qed

lemma rd_overflow:
  assumes "2 ^ 1024 \<le> x"
  shows "rd x = PosInf"
proof -
  have x: "0 < x" using assms by (smt (verit) zero_less_power)
  have "(2::real) powi 1024 \<le> x" using assms by simp
  then have "2 powr (real_of_int 1024) \<le> x"
    using powr_real_of_int' [of 2 1024] by simp
  then have "real_of_int 1024 \<le> log 2 x"
    using x by (simp add: le_log_iff)
  then have f: "1024 \<le> \<lfloor>log 2 x\<rfloor>" by (simp add: le_floor_iff)
  then have e: "expo x = \<lfloor>log 2 x\<rfloor>" using x by (simp add: expo_def)
  define q :: real where "q = 2 powi (expo x - 52)"
  have q: "0 < q" unfolding q_def by simp
  have pe: "2 powi (expo x) = q * 2 ^ 52"
    unfolding q_def using power_int_add [of "2::real" "expo x - 52" 52] by simp
  have "2 powi (expo x) \<le> x" unfolding e using x by (rule pow_floor_log)
  then have "real_of_int (2 ^ 52) \<le> x / q" using q by (simp add: pe le_divide_eq mult.commute)
  then have "2 ^ 52 \<le> rhe (x / q)" by (rule rhe_ge_int)
  then have "real_of_int (2 ^ 52) \<le> real_of_int (rhe (x / q))" by (simp only: of_int_le_iff)
  then have "real_of_int (2 ^ 52) * q \<le> real_of_int (rhe (x / q)) * q"
    using q by (intro mult_right_mono) simp_all
  then have "2 powi (expo x) \<le> real_of_int (rhe (x / q)) * q" by (simp add: pe mult.commute)
  moreover have "(2::real) powi 1024 \<le> 2 powi (expo x)"
    using f e by (intro power_int_increasing) simp_all
  ultimately have "2 ^ 1024 \<le> real_of_int (rhe (x / q)) * q" by simp
  then have "2 ^ 1024 \<le> \<bar>real_of_int (rhe (x / q)) * q\<bar>" by linarith
  then show ?thesis using x unfolding rd_def q_def [symmetric] Let_def by (simp del: power_int_diff)
qed

lemma rd_underflow:
  assumes "\<bar>x\<bar> < 2 powi (- 1075)"
  shows "rd x = Num 0"
proof (cases "x = 0")
  case True
  then show ?thesis by (simp add: rd_def)
next
  case False
  have "\<bar>x\<bar> < 2 powr (real_of_int (- 1022))"
  proof -
    have "(2::real) powi (- 1075) \<le> 2 powi (- 1022)" by (intro power_int_increasing) simp_all
    then show ?thesis using assms powr_real_of_int' [of 2 "- 1022"] by simp
  qed
  then have "log 2 \<bar>x\<bar> < real_of_int (- 1022)"
    using False by (simp add: log_less_iff)
  then have "\<lfloor>log 2 \<bar>x\<bar>\<rfloor> \<le> - 1022" by (simp add: floor_le_iff) 
  then have e: "expo x = - 1022" by (simp add: expo_def)
  have h: "(2::real) powi (- 1075) = 2 powi (- 1074) / 2"
    using power_int_add [of "2::real" "- 1074" "- 1"] by simp
  have "\<bar>x / 2 powi (- 1074)\<bar> < 1 / 2"
    using assms unfolding h by (simp add: abs_divide field_simps del: power_int_minus)
  then have "rhe (x / 2 powi (- 1074)) = 0" using rhe_unique [of "x / 2 powi (- 1074)" 0] by simp
  then show ?thesis using False by (simp add: rd_def e Let_def del: power_int_minus)
qed

lemma rd_half: "rd (1 / 2) = Num (1 / 2)"
  using rd_eval [of "- 1" "1 / 2" "2 ^ 52"] rhe_of_int [of "2 ^ 52"] by simp

lemma rd_c: "rd (9007199254740990 / 2 ^ 53) = Num (9007199254740990 / 2 ^ 53)"
  using rd_eval [of "- 1" "9007199254740990 / 2 ^ 53" 9007199254740990] by (simp add: rhe_def)

lemma fusedWeight_val: "fusedWeight = 7205759403792794 / 2 ^ 54"
  by (simp add: fusedWeight_def dbl_def rd_04 [simplified])

lemma lateInteractionWeight_val: "lateInteractionWeight = 5404319552844595 / 2 ^ 53"
  by (simp add: lateInteractionWeight_def dbl_def rd_06 [simplified])

lemma err_linear:
  fixes da db df S T X Y eta :: real
  assumes "da \<le> X / 2 ^ 53 + eta" "db \<le> Y / 2 ^ 53 + eta" "df \<le> S / 2 ^ 53 + eta"
    and "S \<le> da + db + X + Y" "T \<le> df + da + db"
    and "0 \<le> X" "0 \<le> Y" "0 \<le> eta"
  shows "T \<le> 3 * (X + Y) / 2 ^ 53 + 4 * eta"
proof -
  define P where "P = X + Y"
  have P: "0 \<le> P" using assms by (simp add: P_def)
  have 1: "da + db \<le> P / 2 ^ 53 + 2 * eta"
    using assms(1,2) by (simp add: P_def add_divide_distrib)
  have "S \<le> P / 2 ^ 53 + 2 * eta + P" using assms(4) 1 by (simp add: P_def)
  then have "S / 2 ^ 53 \<le> (P / 2 ^ 53 + 2 * eta + P) / 2 ^ 53"
    by (rule divide_right_mono) simp
  also have "\<dots> = P / 2 ^ 53 / 2 ^ 53 + 2 * eta / 2 ^ 53 + P / 2 ^ 53"
    by (simp only: add_divide_distrib)
  also have "\<dots> \<le> P / 2 ^ 53 + eta + P / 2 ^ 53"
  proof -
    have "P / 2 ^ 53 / 2 ^ 53 \<le> P / 2 ^ 53 / 1"
      using P by (intro divide_left_mono) simp_all
    moreover have "2 * eta / 2 ^ 53 \<le> eta"
      using assms(8) by simp
    ultimately show ?thesis by simp
  qed
  finally have 2: "S / 2 ^ 53 \<le> 2 * (P / 2 ^ 53) + eta" by simp
  have "T \<le> (S / 2 ^ 53 + eta) + (P / 2 ^ 53 + 2 * eta)"
    using assms(5,3) 1 by linarith
  also have "\<dots> \<le> 3 * (P / 2 ^ 53) + 4 * eta" using 2 by linarith
  finally show ?thesis by (simp add: P_def)
qed

lemma err_combine:
  fixes a b f A B eta :: real
  assumes "\<bar>a - A\<bar> \<le> \<bar>A\<bar> / 2 ^ 53 + eta"
    and "\<bar>b - B\<bar> \<le> \<bar>B\<bar> / 2 ^ 53 + eta"
    and "\<bar>f - (a + b)\<bar> \<le> \<bar>a + b\<bar> / 2 ^ 53 + eta"
    and "0 \<le> eta"
  shows "\<bar>f - (A + B)\<bar> \<le> 3 * (\<bar>A\<bar> + \<bar>B\<bar>) / 2 ^ 53 + 4 * eta"
proof -
  have s: "\<bar>a + b\<bar> \<le> \<bar>a - A\<bar> + \<bar>b - B\<bar> + \<bar>A\<bar> + \<bar>B\<bar>" by linarith
  have t: "\<bar>f - (A + B)\<bar> \<le> \<bar>f - (a + b)\<bar> + \<bar>a - A\<bar> + \<bar>b - B\<bar>" by linarith
  show ?thesis
    by (rule err_linear [OF assms(1,2,3) s t _ _ assms(4)]) simp_all
qed

subsection \<open>Evaluation rules for the concrete inputs\<close>

lemmas rd_values = rd_c [simplified] rd_0 rd_1 rd_2 rd_half rd_w1 [simplified] rd_w2 [simplified] rd_m [simplified]
  rd_sqrt2 [simplified] rd_sq [simplified] rd_q [simplified]
  rd_085 [simplified] rd_092 [simplified] rd_0892 [simplified]
  rd_p1 [simplified] rd_p2 [simplified] rd_s [simplified]

lemmas score_simps = colbertScore_def maxSim_def sim_def sim_loop_def sim_step_def idx_def upt_rec
  rd_values

lemmas rerank_simps = rerank_def ranked_def scored_candidates_def has_colbert_def
  slice0_def js_sort_def score_point_def Let_def final_of_def fusedWeight_val lateInteractionWeight_val
  compare_final_def jsub_def ex_point_def ex_scored_def ex_two_def ex_four_def rd_values

lemmas search_simps = search_def Let_def ex_backend_def ex_services_def ex_response_def
  ex_input_def ex_sparse_def ex_requests_def ex_output_def
  search_request_def candidates_of_def results_of_def collectionName_def topK_def
  candidateMultiplier_def

lemma rd_huge_sq: "rd (ex_huge * ex_huge) = PosInf"
  by (rule rd_overflow) (simp add: ex_huge_def)

lemma rd_tiny_sq: "rd (ex_tiny * ex_tiny) = Num 0"
  by (rule rd_underflow) (simp add: ex_tiny_def)

subsection \<open>The loops compute the formula in double arithmetic\<close>

lemma sim_fold_dot:
  assumes "k \<le> length qv" "length dv = length qv"
  shows "fold (sim_step qv dv) [0..<k] (a, b, c) =
     (foldl jadd a (map2 (\<lambda>x y. jmul (Num x) (Num y)) (take k qv) (take k dv)),
      foldl jadd b (map2 (\<lambda>x y. jmul (Num x) (Num y)) (take k qv) (take k qv)),
      foldl jadd c (map2 (\<lambda>x y. jmul (Num x) (Num y)) (take k dv) (take k dv)))"
  using assms
proof (induction k)
  case 0
  then show ?case by simp
next
  case (Suc k)
  then have k: "k < length qv" "k < length dv" by simp_all
  show ?case
    using Suc k by (simp add: take_Suc_conv_app_nth sim_step_def idx_def)
qed

lemma sim_loop_dot:
  assumes "length dv = length qv"
  shows "sim_loop qv dv = (dbl_dot qv dv, dbl_dot qv qv, dbl_dot dv dv)"
  using sim_fold_dot [of "length qv" qv dv "Num 0" "Num 0" "Num 0"] assms
  by (simp add: sim_loop_def dbl_dot_def)

lemma sim_dbl_cos:
  assumes "length dv = length qv"
  shows "sim qv dv = dbl_cos qv dv"
  by (simp add: sim_def sim_loop_dot [OF assms] dbl_cos_def)

lemma jmax_list_Cons:
  "jmax_list (x # xs) = jmax x (jmax_list xs)"
proof (cases x)
  case (Num a)
  show ?thesis
  proof (cases "nums xs = []")
    case True
    with Num show ?thesis by (auto simp: jmax_list_def)
  next
    case False
    then have "Max (insert a (set (nums xs))) = max a (Max (set (nums xs)))"
      by (simp add: Max_insert)
    with Num False show ?thesis by (auto simp: jmax_list_def)
  qed
next
  case PosInf
  then show ?thesis by (cases "jmax_list xs") (auto simp: jmax_list_def split: if_splits)
next
  case NegInf
  then show ?thesis by (cases "jmax_list xs") (auto simp: jmax_list_def split: if_splits)
next
  case NaN
  then show ?thesis by (auto simp: jmax_list_def)
qed

lemma jmax_assoc: "jmax (jmax x y) z = jmax x (jmax y z)"
  by (cases x; cases y; cases z) (simp_all add: max.assoc)

lemma fold_jmax: "fold (\<lambda>x m. jmax m x) xs m0 = jmax m0 (jmax_list xs)"
proof (induction xs arbitrary: m0)
  case Nil
  show ?case by (cases m0) (simp_all add: jmax_list_def)
next
  case (Cons x xs)
  then show ?case by (simp add: jmax_list_Cons jmax_assoc)
qed

lemma jmax_NegInf_left: "jmax NegInf y = y"
  by (cases y) simp_all

lemma maxSim_jmax_list:
  assumes "\<forall>dv \<in> set D. length dv = length qv"
  shows "maxSim D qv = jmax_list (map (dbl_cos qv) D)"
proof -
  have "fold (\<lambda>dv m. jmax m (sim qv dv)) D NegInf = fold (\<lambda>x m. jmax m x) (map (sim qv) D) NegInf"
    by (simp add: fold_map comp_def)
  also have "\<dots> = jmax_list (map (sim qv) D)" by (simp add: fold_jmax jmax_NegInf_left)
  also have "map (sim qv) D = map (dbl_cos qv) D" using assms by (simp add: sim_dbl_cos)
  finally show ?thesis by (simp add: maxSim_def)
qed

lemma total_foldl:
  "fold (\<lambda>qv total. jadd total (f qv)) Q t = foldl jadd t (map f Q)"
  by (induction Q arbitrary: t) simp_all

text \<open>
  \<^bold>\<open>Claim C1\<close>, as the code has it. For query and stored vectors of one dimension \<open>n\<close>,
  \<open>colbertScore\<close> returns the formula \<open>(1/|Q|) * \<Sum>\<^bsub>q\<in>Q\<^esub> max\<^bsub>d\<in>D\<^esub> cos(q, d)\<close> of the
  specification evaluated in double arithmetic: every product, sum, square root and
  quotient is rounded to the nearest double, in the order of \<open>dbl_score\<close>, and the
  cosine is \<open>0\<close> when the product of the two rounded norms is \<open>0\<close>. The result is
  not the exact real value of the formula.
\<close>

theorem colbertScore_rounded_maxsim:
  assumes "\<forall>v \<in> set Q \<union> set D. length v = n"
  shows "colbertScore Q D = dbl_score Q D"
proof -
  have "map (maxSim D) Q = map (\<lambda>q. jmax_list (map (dbl_cos q) D)) Q"
    using assms by (auto intro!: maxSim_jmax_list)
  then show ?thesis
    by (simp only: colbertScore_def dbl_score_def total_foldl)
qed

text \<open>
  The scenario of the specification: \<open>Q = [[1,0],[0,1]]\<close> against the stored vectors
  \<open>[[1,0]]\<close> scores \<open>0.5\<close>, here without any rounding error.
\<close>

theorem colbertScore_rounded_maxsim_witness:
  "colbertScore [[1, 0], [0, 1]] [[1, 0]] = dbl_score [[1, 0], [0, 1]] [[1, 0]] \<and>
   dbl_score [[1, 0], [0, 1]] [[1, 0]] = Num (1 / 2)"
proof -
  have h: "\<forall>v \<in> set [[1, 0], [0, 1]] \<union> set [[1, 0 :: real]]. length v = 2" by simp
  have "colbertScore [[1, 0], [0, 1]] [[1, 0]] = dbl_score [[1, 0], [0, 1]] [[1, 0]]"
    using h by (rule colbertScore_rounded_maxsim)
  moreover have "dbl_score [[1, 0], [0, 1]] [[1, 0]] = Num (1 / 2)"
    by (simp add: dbl_score_def dbl_cos_def dbl_dot_def jmax_list_def rd_values)
  ultimately show ?thesis by simp
qed

lemma spec_score_self:
  assumes "x \<noteq> 0"
  shows "spec_score [[x]] [[x]] = 1"
proof -
  have "spec_norm [x] = \<bar>x\<bar>" by (simp add: spec_norm_def)
  moreover have "spec_dot [x] [x] = \<bar>x\<bar> * \<bar>x\<bar>" by (simp add: spec_dot_def)
  ultimately have "spec_cos [x] [x] = 1" using assms by (simp add: spec_cos_def)
  then show ?thesis by (simp add: spec_score_def)
qed

text \<open>
  Against the exact formula, which gives \<open>1\<close> for any non-zero vector against itself:
  for \<open>[[1,1]]\<close> the code returns \<^verbatim>\<open>0.9999999999999998\<close>; for the component \<^verbatim>\<open>1e200\<close>
  the squared norm overflows and the score is \<^verbatim>\<open>NaN\<close>; for the component \<^verbatim>\<open>1e-200\<close>
  it underflows to zero, the guard \<^verbatim>\<open>denom === 0\<close> fires on a non-zero vector and the
  score is \<open>0\<close>.
\<close>

theorem colbertScore_rounds:
  "colbertScore [[1, 1]] [[1, 1]] = Num (9007199254740990 / 2 ^ 53) \<and>
   spec_score [[1, 1]] [[1, 1]] = 1 \<and>
   colbertScore [[ex_huge]] [[ex_huge]] = NaN \<and>
   spec_score [[ex_huge]] [[ex_huge]] = 1 \<and>
   colbertScore [[ex_tiny]] [[ex_tiny]] = Num 0 \<and>
   spec_score [[ex_tiny]] [[ex_tiny]] = 1"
proof -
  have 1: "colbertScore [[1, 1]] [[1, 1]] = Num (9007199254740990 / 2 ^ 53)"
    by (simp add: score_simps)
  have 2: "spec_score [[1, 1]] [[1, 1]] = 1"
    by (simp add: spec_score_def spec_cos_def spec_norm_def spec_dot_def)
  have 3: "colbertScore [[ex_huge]] [[ex_huge]] = NaN"
    by (simp add: colbertScore_def maxSim_def sim_def sim_loop_def sim_step_def idx_def rd_huge_sq)
  have 4: "spec_score [[ex_huge]] [[ex_huge]] = 1"
    by (rule spec_score_self) (simp add: ex_huge_def)
  have 5: "colbertScore [[ex_tiny]] [[ex_tiny]] = Num 0"
    by (simp add: colbertScore_def maxSim_def sim_def sim_loop_def sim_step_def idx_def rd_tiny_sq rd_0)
  have 6: "spec_score [[ex_tiny]] [[ex_tiny]] = 1"
    by (rule spec_score_self) (simp add: ex_tiny_def)
  from 1 2 3 4 5 6 show ?thesis by blast
qed

subsection \<open>Sorting and slicing\<close>

lemma set_sort_insert: "set (sort_insert cmp x ys) = insert x (set ys)"
  by (induction ys) auto

lemma set_js_sort: "set (js_sort cmp xs) = set xs"
  by (induction xs) (simp_all add: js_sort_def set_sort_insert)

lemma set_slice0: "set (slice0 xs k) \<subseteq> set xs"
  by (auto simp: slice0_def dest: in_set_takeD)

lemma length_slice0: "0 \<le> k \<Longrightarrow> int (length (slice0 xs k)) \<le> k"
  by (simp add: slice0_def)

lemma set_rerank: "set (rerank q cands k) \<subseteq> score_point q ` {c \<in> set cands. has_colbert c}"
  using set_slice0 [of "ranked q cands" k]
  by (auto simp: rerank_def ranked_def scored_candidates_def set_js_sort)

lemma on_grid_rd: "on_grid (rd x)"
  by (simp add: on_grid_def rd_grid)

lemma on_grid_jadd: "on_grid (jadd x y)"
  by (cases x; cases y) (simp_all add: on_grid_rd, simp_all add: on_grid_def)

lemma jgt_sub: "jgt (jsub b a) (Num 0) \<Longrightarrow> jgt b a"
proof (cases a; cases b)
  fix x y
  assume ab: "a = Num x" "b = Num y" and g: "jgt (jsub b a) (Num 0)"
  have "\<not> y - x \<le> 0" using g rd_nonpos [of "y - x"] by (auto simp: ab jsub_def)
  then show "jgt b a" by (simp add: ab)
qed (simp_all add: jsub_def)

lemma jgt_sub_iff:
  assumes "a \<noteq> NaN" "b \<noteq> NaN" "on_grid a" "on_grid b"
  shows "jgt (jsub b a) (Num 0) = jgt b a"
proof (cases a; cases b)
  fix x y
  assume ab: "a = Num x" "b = Num y"
  then have "x \<in> dgrid" "y \<in> dgrid" using assms(3,4) by (simp_all add: on_grid_def)
  from rd_sub_pos_iff [OF this] show ?thesis by (simp add: ab jsub_def)
qed (use assms in \<open>simp_all add: jsub_def\<close>)

lemma jgt_irrefl: "\<not> jgt a a"
  by (cases a) simp_all

lemma jgt_asym: "jgt a b \<Longrightarrow> \<not> jgt b a"
  by (cases a; cases b) simp_all

lemma not_jgt_trans:
  "a \<noteq> NaN \<Longrightarrow> b \<noteq> NaN \<Longrightarrow> c \<noteq> NaN \<Longrightarrow> \<not> jgt b a \<Longrightarrow> \<not> jgt c b \<Longrightarrow> \<not> jgt c a"
  by (cases a; cases b; cases c) simp_all

lemma sorted_sort_insert:
  assumes "\<forall>r \<in> insert x (set ys). final_score r \<noteq> NaN \<and> on_grid (final_score r)"
    and "sorted_wrt (\<lambda>a b. \<not> jgt (final_score b) (final_score a)) ys"
  shows "sorted_wrt (\<lambda>a b. \<not> jgt (final_score b) (final_score a)) (sort_insert compare_final x ys)"
  using assms
proof (induction ys)
  case Nil
  then show ?case by simp
next
  case (Cons y ys)
  have nn: "final_score x \<noteq> NaN" "final_score y \<noteq> NaN" using Cons.prems(1) by auto
  have gr: "on_grid (final_score x)" "on_grid (final_score y)" using Cons.prems(1) by auto
  show ?case
  proof (cases "jgt (compare_final x y) (Num 0)")
    case True
    then have "jgt (final_score y) (final_score x)"
      by (simp add: compare_final_def jgt_sub)
    then have "\<not> jgt (final_score x) (final_score y)" by (rule jgt_asym)
    with True Cons show ?thesis
      by (auto simp: set_sort_insert)
  next
    case False
    then have xy: "\<not> jgt (final_score y) (final_score x)"
      using nn gr by (simp add: compare_final_def jgt_sub_iff)
    have "\<not> jgt (final_score z) (final_score x)" if "z \<in> set ys" for z
    proof -
      have "final_score z \<noteq> NaN" using that Cons.prems(1) by auto
      moreover have "\<not> jgt (final_score z) (final_score y)" using that Cons.prems(2) by auto
      ultimately show ?thesis using not_jgt_trans [OF nn(1) nn(2) _ xy] by blast
    qed
    with False xy Cons.prems(2) show ?thesis by auto
  qed
qed

lemma sorted_js_sort:
  assumes "\<forall>r \<in> set xs. final_score r \<noteq> NaN \<and> on_grid (final_score r)"
  shows "sorted_wrt (\<lambda>a b. \<not> jgt (final_score b) (final_score a)) (js_sort compare_final xs)"
  using assms
proof (induction xs)
  case Nil
  then show ?case by (simp add: js_sort_def)
next
  case (Cons x xs)
  have "sorted_wrt (\<lambda>a b. \<not> jgt (final_score b) (final_score a)) (js_sort compare_final xs)"
    using Cons by simp
  moreover have "\<forall>r \<in> insert x (set (js_sort compare_final xs)).
      final_score r \<noteq> NaN \<and> on_grid (final_score r)"
    using Cons.prems by (simp add: set_js_sort)
  ultimately have "sorted_wrt (\<lambda>a b. \<not> jgt (final_score b) (final_score a))
      (sort_insert compare_final x (js_sort compare_final xs))"
    by (rule sorted_sort_insert [rotated])
  then show ?case by (simp add: js_sort_def)
qed

lemma filter_sort_insert:
  "filter (\<lambda>r. final_score r = v) (sort_insert compare_final x ys) =
   filter (\<lambda>r. final_score r = v) (x # ys)"
proof (induction ys)
  case Nil
  then show ?case by simp
next
  case (Cons y ys)
  show ?case
  proof (cases "jgt (compare_final x y) (Num 0)")
    case True
    then have "jgt (final_score y) (final_score x)"
      by (simp add: compare_final_def jgt_sub)
    then have "final_score y \<noteq> final_score x" using jgt_irrefl by metis
    with True Cons show ?thesis by auto
  next
    case False
    then show ?thesis by simp
  qed
qed

lemma filter_js_sort:
  "filter (\<lambda>r. final_score r = v) (js_sort compare_final xs) = filter (\<lambda>r. final_score r = v) xs"
proof (induction xs)
  case Nil
  then show ?case by (simp add: js_sort_def)
next
  case (Cons x xs)
  have "filter (\<lambda>r. final_score r = v) (js_sort compare_final (x # xs)) =
        filter (\<lambda>r. final_score r = v) (x # js_sort compare_final xs)"
    by (simp only: js_sort_def foldr.simps o_apply filter_sort_insert)
  with Cons show ?case by simp
qed

lemma sorted_wrt_slice0: "sorted_wrt P xs \<Longrightarrow> sorted_wrt P (slice0 xs k)"
  by (simp add: slice0_def sorted_wrt_take)

lemma on_grid_scored: "r \<in> set (scored_candidates q cands) \<Longrightarrow> on_grid (final_score r)"
  by (auto simp: scored_candidates_def score_point_def Let_def final_of_def on_grid_jadd)

subsection \<open>Candidates without stored vectors\<close>

text \<open>
  \<^bold>\<open>Claim C2\<close>, as the code has it. A candidate whose payload is absent, or whose payload
  has no \<^verbatim>\<open>colbert_embedding\<close> (missing or \<^verbatim>\<open>null\<close>), is dropped before scoring: with
  distinct candidate ids, its id is not among the ids of the reranked output. The filter
  tests presence only; the specification adds "or empty", which the filter does not test.
\<close>

theorem rerank_drops_absent:
  assumes "distinct (map p_id cands)" and "c \<in> set cands"
    and "\<forall>p. p_payload c = Some p \<longrightarrow> colbert_embedding p = None"
  shows "p_id c \<notin> r_id ` set (rerank q cands k)"
proof
  assume "p_id c \<in> r_id ` set (rerank q cands k)"
  then obtain c' where c': "c' \<in> set cands" "has_colbert c'" "p_id c = r_id (score_point q c')"
    using set_rerank [of q cands k] by auto
  then have "p_id c = p_id c'" by (simp add: score_point_def Let_def)
  with assms(1,2) c'(1) have "c = c'" by (meson distinct_map inj_onD)
  with c'(2) assms(3) show False by (auto simp: has_colbert_def split: option.splits)
qed

theorem rerank_drops_absent_witness:
  "distinct (map p_id [ex_point 1 1 (Some [[1]]), ex_point 2 1 None]) \<and>
   p_id (ex_point 2 1 None) \<notin>
     r_id ` set (rerank [[1]] [ex_point 1 1 (Some [[1]]), ex_point 2 1 None] 3)"
proof -
  have d: "distinct (map p_id [ex_point 1 1 (Some [[1]]), ex_point 2 1 None])"
    by (simp add: ex_point_def)
  have m: "ex_point 2 1 None \<in> set [ex_point 1 1 (Some [[1]]), ex_point 2 1 None]"
    by simp
  have a: "\<forall>p. p_payload (ex_point 2 1 None) = Some p \<longrightarrow> colbert_embedding p = None"
    by (simp add: ex_point_def)
  from rerank_drops_absent [OF d m a] d show ?thesis by blast
qed

text \<open>
  An empty array is truthy in JavaScript: a candidate that stores the empty sequence
  passes the filter, is scored \<^verbatim>\<open>-Infinity\<close> and appears in the output.
\<close>

theorem rerank_keeps_empty_embedding:
  "7 \<in> r_id ` set (rerank [[1]] [ex_point 7 1 (Some [])] 3) \<and>
   colbert_embedding (the (p_payload (ex_point 7 1 (Some [])))) = Some [] \<and>
   rerank [[1]] [ex_point 7 1 (Some [])] 3 = [ex_scored 7 1 NegInf NegInf]"
  by (simp add: rerank_simps colbertScore_def maxSim_def)

subsection \<open>Vectors of different dimensions\<close>

lemma fold_sim_step_NaN:
  "\<exists>b'. fold (sim_step qv dv) xs (NaN, b, NaN) = (NaN, b', NaN)"
proof (induction xs arbitrary: b)
  case Nil
  then show ?case by simp
next
  case (Cons x xs)
  have "sim_step qv dv x (NaN, b, NaN) = (NaN, jadd b (jmul (idx qv x) (idx qv x)), NaN)"
    by (simp add: sim_step_def)
  with Cons show ?case by simp
qed

lemma jmul_NaN_right: "jmul x NaN = NaN"
  by (cases x) simp_all

lemma jadd_NaN_right: "jadd x NaN = NaN"
  by (cases x) simp_all

lemma jmax_NaN_right: "jmax x NaN = NaN"
  by (cases x) simp_all

lemma sim_short:
  assumes "length dv < length qv"
  shows "sim qv dv = NaN"
proof -
  let ?m = "length dv"
  have split: "[0..<length qv] = [0..<?m] @ ?m # [Suc ?m..<length qv]"
  proof -
    have "[0..<length qv] = [0..<?m] @ [?m..<length qv]"
      using upt_add_eq_append [of 0 ?m "length qv - ?m"] assms by simp
    moreover have "[?m..<length qv] = ?m # [Suc ?m..<length qv]"
      using assms by (simp add: upt_conv_Cons)
    ultimately show ?thesis by simp
  qed
  obtain a b c where acc: "fold (sim_step qv dv) [0..<?m] (Num 0, Num 0, Num 0) = (a, b, c)"
    by (metis prod_cases3)
  have step: "sim_step qv dv ?m (a, b, c) = (NaN, jadd b (jmul (idx qv ?m) (idx qv ?m)), NaN)"
    by (simp add: sim_step_def idx_def jmul_NaN_right jadd_NaN_right)
  have "sim_loop qv dv =
      fold (sim_step qv dv) [Suc ?m..<length qv]
        (NaN, jadd b (jmul (idx qv ?m) (idx qv ?m)), NaN)"
    unfolding sim_loop_def by (subst split) (simp add: acc step)
  then obtain b' where "sim_loop qv dv = (NaN, b', NaN)"
    using fold_sim_step_NaN [of qv dv "[Suc ?m..<length qv]" "jadd b (jmul (idx qv ?m) (idx qv ?m))"]
    by auto
  then show ?thesis by (simp add: sim_def jmul_NaN_right)
qed

lemma maxSim_NaN:
  assumes "D \<noteq> []" "\<forall>dv \<in> set D. sim qv dv = NaN"
  shows "fold (\<lambda>dv m. jmax m (sim qv dv)) D m = NaN"
  using assms
proof (induction D arbitrary: m)
  case Nil
  then show ?case by simp
next
  case (Cons d D)
  show ?case
  proof (cases "D = []")
    case True
    with Cons.prems show ?thesis by (simp add: jmax_NaN_right)
  next
    case False
    with Cons show ?thesis by simp
  qed
qed

lemma total_NaN:
  assumes "Q \<noteq> []" "\<forall>qv \<in> set Q. f qv = NaN"
  shows "fold (\<lambda>qv total. jadd total (f qv)) Q t = NaN"
  using assms
proof (induction Q arbitrary: t)
  case Nil
  then show ?case by simp
next
  case (Cons q Q)
  show ?case
  proof (cases "Q = []")
    case True
    with Cons.prems show ?thesis by (simp add: jadd_NaN_right)
  next
    case False
    with Cons show ?thesis by simp
  qed
qed

lemma sim_long:
  assumes "length qv \<le> length dv"
  shows "sim qv (take (length qv) dv) = sim qv dv"
proof -
  have "sim_step qv (take (length qv) dv) i = sim_step qv dv i" if "i \<in> set [0..<length qv]" for i
    using that assms by (auto simp: sim_step_def idx_def fun_eq_iff)
  then have "sim_loop qv (take (length qv) dv) = sim_loop qv dv"
    unfolding sim_loop_def by (intro fold_cong) auto
  then show ?thesis by (simp add: sim_def)
qed

text \<open>
  \<^bold>\<open>Claim C3\<close>, as the code has it. \<open>colbertScore\<close> checks no dimension and raises
  nothing. When the stored vectors are shorter than the query vectors (dimension \<open>m < n\<close>,
  such as 64 against 128) the reads past the end give \<^verbatim>\<open>undefined\<close> and the score is
  \<^verbatim>\<open>NaN\<close>; when they are longer, the loop stops at the query dimension and the score is
  that of the stored vectors cut to \<open>n\<close> components.
\<close>

theorem colbertScore_dimension_mismatch:
  assumes "\<forall>qv \<in> set Q. length qv = n" and "\<forall>dv \<in> set D. length dv = m"
  shows "(Q \<noteq> [] \<and> D \<noteq> [] \<and> m < n \<longrightarrow> colbertScore Q D = NaN) \<and>
         (n < m \<longrightarrow> colbertScore Q D = colbertScore Q (map (take n) D))"
proof (intro conjI impI)
  assume h: "Q \<noteq> [] \<and> D \<noteq> [] \<and> m < n"
  have "\<forall>qv \<in> set Q. \<forall>dv \<in> set D. sim qv dv = NaN"
    using assms h by (auto intro!: sim_short)
  then have "\<forall>qv \<in> set Q. maxSim D qv = NaN"
    using h by (auto simp: maxSim_def intro!: maxSim_NaN)
  then have "fold (\<lambda>qv total. jadd total (maxSim D qv)) Q (Num 0) = NaN"
    using h by (intro total_NaN) auto
  then show "colbertScore Q D = NaN" by (simp add: colbertScore_def)
next
  assume h: "n < m"
  have "maxSim (map (take n) D) qv = maxSim D qv" if "qv \<in> set Q" for qv
  proof -
    have "sim qv (take n dv) = sim qv dv" if "dv \<in> set D" for dv
      using sim_long [of qv dv] assms h that \<open>qv \<in> set Q\<close> by auto
    then show ?thesis
      unfolding maxSim_def fold_map by (intro fold_cong) (auto simp: fun_eq_iff)
  qed
  then have "fold (\<lambda>qv total. jadd total (maxSim D qv)) Q (Num 0) =
             fold (\<lambda>qv total. jadd total (maxSim (map (take n) D) qv)) Q (Num 0)"
    by (intro fold_cong) (auto simp: fun_eq_iff)
  then show "colbertScore Q D = colbertScore Q (map (take n) D)"
    by (simp add: colbertScore_def)
qed

theorem colbertScore_dimension_mismatch_witness:
  "colbertScore [[1, 0]] [[1]] = NaN \<and>
   colbertScore [[1]] [[1, 0]] = colbertScore [[1]] (map (take 1) [[1, 0]])"
proof -
  have q2: "\<forall>qv \<in> set [[1, 0 :: real]]. length qv = 2" by simp
  have q1: "\<forall>qv \<in> set [[1 :: real]]. length qv = 1" by simp
  from colbertScore_dimension_mismatch [OF q2 q1]
  have "colbertScore [[1, 0]] [[1]] = NaN" by simp
  moreover from colbertScore_dimension_mismatch [OF q1 q2]
  have "colbertScore [[1]] [[1, 0]] = colbertScore [[1]] (map (take 1) [[1, 0]])" by simp
  ultimately show ?thesis by blast
qed

text \<open>
  Against the specification's \<^verbatim>\<open>DimensionMismatch\<close>: both directions of a mismatch return
  a value, and a whole search over query vectors of dimension 2 and a stored vector of
  dimension 1 ends with a result list, its one entry scored \<^verbatim>\<open>NaN\<close>.
\<close>

theorem dimension_mismatch_returns_value:
  "colbertScore [[1, 0]] [[1]] = NaN \<and>
   colbertScore [[1]] [[1, 0]] = Num 1 \<and>
   search (ex_backend (Some [[1, 0]]) (ex_response [ex_point 1 1 (Some [[1]])]))
          (ex_input ''q'' None) =
     (ex_requests (ex_input ''q'' None), Inr (ex_output ''q'' [ex_scored 1 1 NaN NaN] 1))"
  by (simp add: search_simps rerank_simps score_simps)

subsection \<open>The combined score\<close>

lemma final_of_error:
  assumes "final_of h (Num s) = Num f"
  shows "\<bar>f - (h * fusedWeight + s * lateInteractionWeight)\<bar>
           \<le> 3 * (\<bar>h\<bar> * fusedWeight + \<bar>s\<bar> * lateInteractionWeight) / 2 ^ 53 + 2 powi (- 1073)"
proof -
  define eta :: real where "eta = 2 powi (- 1075)"
  have eta: "0 \<le> eta" unfolding eta_def by simp
  have eta4: "2 powi (- 1073) = 4 * eta"
    unfolding eta_def using power_int_add [of "2::real" "- 1075" 2] by simp
  have w: "0 \<le> fusedWeight" "0 \<le> lateInteractionWeight"
    by (simp_all add: fusedWeight_val lateInteractionWeight_val)
  obtain a where a: "rd (h * fusedWeight) = Num a"
    using assms by (cases "rd (h * fusedWeight)"; cases "rd (s * lateInteractionWeight)")
      (auto simp: final_of_def)
  obtain b where b: "rd (s * lateInteractionWeight) = Num b"
    using assms by (cases "rd (h * fusedWeight)"; cases "rd (s * lateInteractionWeight)")
      (auto simp: final_of_def)
  have f: "rd (a + b) = Num f" using assms by (simp add: final_of_def a b)
  have ea: "\<bar>a - h * fusedWeight\<bar> \<le> \<bar>h * fusedWeight\<bar> / 2 ^ 53 + eta"
    unfolding eta_def by (rule rd_error [OF a])
  have eb: "\<bar>b - s * lateInteractionWeight\<bar> \<le> \<bar>s * lateInteractionWeight\<bar> / 2 ^ 53 + eta"
    unfolding eta_def by (rule rd_error [OF b])
  have ef: "\<bar>f - (a + b)\<bar> \<le> \<bar>a + b\<bar> / 2 ^ 53 + eta"
    unfolding eta_def by (rule rd_error [OF f])
  have m: "\<bar>h * fusedWeight\<bar> = \<bar>h\<bar> * fusedWeight"
    "\<bar>s * lateInteractionWeight\<bar> = \<bar>s\<bar> * lateInteractionWeight"
    using w by (simp_all add: abs_mult)
  from err_combine [OF ea eb ef eta] show ?thesis
    by (simp only: m eta4)
qed

text \<open>
  \<^bold>\<open>Claim C4\<close>, as the code has it. Every entry of the reranked output comes from a
  candidate that stores vectors; its \<^verbatim>\<open>hybrid_score\<close> is that candidate's fused score,
  its \<^verbatim>\<open>colbert_score\<close> the late-interaction score, and its \<^verbatim>\<open>final_score\<close> is
  \<open>(hybrid_score * fusedWeight) + (colbert_score * lateInteractionWeight)\<close> in double
  arithmetic: the weights are the doubles nearest to \<open>0.4\<close> and \<open>0.6\<close>, and the two
  products and the sum are each rounded. A finite final score lies within
  \<open>3 * 2\<^bsup>-53\<^esup> * (|hybrid_score| * fusedWeight + |colbert_score| * lateInteractionWeight)
  + 2\<^bsup>-1073\<^esup>\<close> of the exact weighted sum. For the fused score \<^verbatim>\<open>0.85\<close> and the
  late-interaction score \<^verbatim>\<open>0.92\<close> it is \<^verbatim>\<open>0.8920000000000001\<close>.
\<close>

theorem final_score_rounded:
  assumes "r \<in> set (rerank q cands k)"
  shows "(\<exists>c \<in> set cands. \<exists>p dVecs. p_payload c = Some p \<and> colbert_embedding p = Some dVecs \<and>
            r_id r = p_id c \<and> hybrid_score r = p_score c \<and> colbert_score r = colbertScore q dVecs) \<and>
         final_score r = jadd (jmul (Num (hybrid_score r)) (Num fusedWeight))
                              (jmul (colbert_score r) (Num lateInteractionWeight)) \<and>
         (\<forall>s f. colbert_score r = Num s \<and> final_score r = Num f \<longrightarrow>
              \<bar>f - (hybrid_score r * fusedWeight + s * lateInteractionWeight)\<bar>
                \<le> 3 * (\<bar>hybrid_score r\<bar> * fusedWeight + \<bar>s\<bar> * lateInteractionWeight) / 2 ^ 53
                    + 2 powi (- 1073)) \<and>
         fusedWeight = 7205759403792794 / 2 ^ 54 \<and>
         lateInteractionWeight = 5404319552844595 / 2 ^ 53 \<and>
         \<bar>fusedWeight - 4 / 10\<bar> \<le> 1 / 2 ^ 55 \<and>
         \<bar>lateInteractionWeight - 6 / 10\<bar> \<le> 1 / 2 ^ 54 \<and>
         final_of (dbl (85 / 100)) (Num (dbl (92 / 100))) = Num (8034421735228966 / 2 ^ 53)"
proof -
  obtain c where c: "c \<in> set cands" "has_colbert c" "r = score_point q c"
    using assms set_rerank [of q cands k] by auto
  from c(2) obtain p dVecs where p: "p_payload c = Some p" "colbert_embedding p = Some dVecs"
    by (auto simp: has_colbert_def split: option.splits)
  have 1: "r_id r = p_id c \<and> hybrid_score r = p_score c \<and> colbert_score r = colbertScore q dVecs"
    using c(3) p by (simp add: score_point_def Let_def)
  have 2: "final_score r = final_of (hybrid_score r) (colbert_score r)"
    using c(3) by (simp add: score_point_def Let_def)
  have 3: "\<forall>s f. colbert_score r = Num s \<and> final_score r = Num f \<longrightarrow>
              \<bar>f - (hybrid_score r * fusedWeight + s * lateInteractionWeight)\<bar>
                \<le> 3 * (\<bar>hybrid_score r\<bar> * fusedWeight + \<bar>s\<bar> * lateInteractionWeight) / 2 ^ 53
                    + 2 powi (- 1073)"
    using 2 final_of_error [of "hybrid_score r"] by metis
  have 4: "\<bar>fusedWeight - 4 / 10\<bar> \<le> 1 / 2 ^ 55 \<and> \<bar>lateInteractionWeight - 6 / 10\<bar> \<le> 1 / 2 ^ 54"
    by (simp add: fusedWeight_val lateInteractionWeight_val)
  have 5: "final_of (dbl (85 / 100)) (Num (dbl (92 / 100))) = Num (8034421735228966 / 2 ^ 53)"
    by (simp add: final_of_def dbl_def fusedWeight_val lateInteractionWeight_val rd_values)
  have 6: "final_score r = jadd (jmul (Num (hybrid_score r)) (Num fusedWeight))
                              (jmul (colbert_score r) (Num lateInteractionWeight))"
    using 2 by (simp add: final_of_def)
  show ?thesis
    using c(1) p 1 3 4 5 6 fusedWeight_val lateInteractionWeight_val by blast
qed

theorem final_score_rounded_witness:
  "ex_scored 1 1 (Num 1) (Num 1) \<in> set (rerank [[1]] [ex_point 1 1 (Some [[1]])] 3) \<and>
   final_score (ex_scored 1 1 (Num 1) (Num 1)) =
     jadd (jmul (Num (hybrid_score (ex_scored 1 1 (Num 1) (Num 1)))) (Num fusedWeight))
          (jmul (colbert_score (ex_scored 1 1 (Num 1) (Num 1))) (Num lateInteractionWeight)) \<and>
   \<bar>1 - (hybrid_score (ex_scored 1 1 (Num 1) (Num 1)) * fusedWeight + 1 * lateInteractionWeight)\<bar>
     \<le> 3 * (\<bar>hybrid_score (ex_scored 1 1 (Num 1) (Num 1))\<bar> * fusedWeight + \<bar>1\<bar> * lateInteractionWeight) / 2 ^ 53
         + 2 powi (- 1073)"
proof -
  have m: "ex_scored 1 1 (Num 1) (Num 1) \<in> set (rerank [[1]] [ex_point 1 1 (Some [[1]])] 3)"
    by (simp add: rerank_simps score_simps)
  have c: "colbert_score (ex_scored 1 1 (Num 1) (Num 1)) = Num 1 \<and>
           final_score (ex_scored 1 1 (Num 1) (Num 1)) = Num 1"
    by (simp add: ex_scored_def)
  from final_score_rounded [OF m] c m show ?thesis by blast
qed

text \<open>
  The example of the specification: the value the code computes is neither the real
  number \<open>0.892\<close> nor the double nearest to it, but the next double above.
\<close>

theorem final_score_example_rounds:
  "final_of (dbl (85 / 100)) (Num (dbl (92 / 100))) = Num (8034421735228966 / 2 ^ 53) \<and>
   final_of (dbl (85 / 100)) (Num (dbl (92 / 100))) \<noteq> Num (892 / 1000) \<and>
   final_of (dbl (85 / 100)) (Num (dbl (92 / 100))) \<noteq> Num (dbl (892 / 1000)) \<and>
   dbl (892 / 1000) = 8034421735228965 / 2 ^ 53"
  by (simp add: final_of_def dbl_def fusedWeight_val lateInteractionWeight_val rd_values)

subsection \<open>The order of the output\<close>

text \<open>
  \<^bold>\<open>Claim C5\<close>, as the code has it. The comparator looks at \<^verbatim>\<open>final_score\<close> only.
  When no final score is \<^verbatim>\<open>NaN\<close>, the output is sorted by final score, descending; it is
  a prefix of the sorted list of all scored candidates; and entries of equal final score
  stay in the order in which the index returned them. Neither the late-interaction score
  nor the id breaks a tie.
\<close>

theorem rerank_order:
  assumes "\<forall>r \<in> set (scored_candidates q cands). final_score r \<noteq> NaN"
  shows "sorted_wrt (\<lambda>a b. \<not> jgt (final_score b) (final_score a)) (rerank q cands k) \<and>
         (\<exists>n. rerank q cands k = take n (ranked q cands)) \<and>
         (\<forall>v. filter (\<lambda>r. final_score r = v) (ranked q cands) =
              filter (\<lambda>r. final_score r = v) (scored_candidates q cands))"
proof -
  have "\<forall>r \<in> set (scored_candidates q cands). final_score r \<noteq> NaN \<and> on_grid (final_score r)"
    using assms on_grid_scored by blast
  then have "sorted_wrt (\<lambda>a b. \<not> jgt (final_score b) (final_score a)) (ranked q cands)"
    unfolding ranked_def by (rule sorted_js_sort)
  then have "sorted_wrt (\<lambda>a b. \<not> jgt (final_score b) (final_score a)) (rerank q cands k)"
    unfolding rerank_def by (rule sorted_wrt_slice0)
  moreover have "\<exists>n. rerank q cands k = take n (ranked q cands)"
    by (auto simp: rerank_def slice0_def)
  moreover have "\<forall>v. filter (\<lambda>r. final_score r = v) (ranked q cands) =
              filter (\<lambda>r. final_score r = v) (scored_candidates q cands)"
    by (simp add: ranked_def filter_js_sort)
  ultimately show ?thesis by blast
qed

theorem rerank_order_witness:
  "sorted_wrt (\<lambda>a b. \<not> jgt (final_score b) (final_score a))
     (rerank [[1]] [ex_point 2 0 (Some [[1]]), ex_point 1 1 (Some [[1]]),
                    ex_point 3 0 (Some [[1]])] 2) \<and>
   filter (\<lambda>r. final_score r = Num lateInteractionWeight)
     (ranked [[1]] [ex_point 2 0 (Some [[1]]), ex_point 1 1 (Some [[1]]),
                    ex_point 3 0 (Some [[1]])]) =
   [ex_scored 2 0 (Num 1) (Num lateInteractionWeight),
    ex_scored 3 0 (Num 1) (Num lateInteractionWeight)]"
proof -
  let ?cs = "[ex_point 2 0 (Some [[1]]), ex_point 1 1 (Some [[1]]),
                    ex_point 3 0 (Some [[1]])]"
  have sc: "scored_candidates [[1]] ?cs =
     [ex_scored 2 0 (Num 1) (Num lateInteractionWeight), ex_scored 1 1 (Num 1) (Num 1),
      ex_scored 3 0 (Num 1) (Num lateInteractionWeight)]"
    by (simp add: rerank_simps score_simps)
  have h: "\<forall>r \<in> set (scored_candidates [[1]] ?cs). final_score r \<noteq> NaN"
    unfolding sc by (simp add: ex_scored_def)
  have f: "filter (\<lambda>r. final_score r = Num lateInteractionWeight) (scored_candidates [[1]] ?cs) =
     [ex_scored 2 0 (Num 1) (Num lateInteractionWeight),
      ex_scored 3 0 (Num 1) (Num lateInteractionWeight)]"
    unfolding sc by (simp add: ex_scored_def lateInteractionWeight_val)
  from rerank_order [OF h, of 2] f show ?thesis by metis
qed

text \<open>
  Two candidates with equal fused and late-interaction scores, returned by the index as
  id 2 then id 1, leave in that order: the output is not sorted by the order of the
  specification.
\<close>

theorem rerank_ties_keep_input_order:
  "\<not> sorted_wrt spec_before
       (rerank [[1]] [ex_point 2 1 (Some [[1]]), ex_point 1 1 (Some [[1]])] 3) \<and>
   rerank [[1]] [ex_point 2 1 (Some [[1]]), ex_point 1 1 (Some [[1]])] 3 =
     [ex_scored 2 1 (Num 1) (Num 1), ex_scored 1 1 (Num 1) (Num 1)]"
  by (simp add: rerank_simps score_simps spec_before_def)

subsection \<open>The node as a whole\<close>

lemma rerank_no_colbert: "filter has_colbert cands = [] \<Longrightarrow> rerank q cands k = []"
  by (simp add: rerank_def ranked_def scored_candidates_def js_sort_def slice0_def)

lemma results_of_Inr:
  assumes "results_of qc cands k = Inr rs"
  shows "\<exists>q. rs = rerank q cands k"
  using assms rerank_no_colbert [of cands]
  by (auto simp: results_of_def split: if_splits option.splits)

lemma length_rerank: "0 \<le> k \<Longrightarrow> int (length (rerank q cands k)) \<le> k"
  by (simp add: rerank_def length_slice0)

lemma search_Inr:
  assumes "search B inp = (reqs, Inr out)"
  shows "\<exists>d s qc resp.
           ollama B (query inp) = Inr d \<and>
           fastembed_bm25 B (query inp) = Inr (Some s) \<and>
           fastembed_colbert B (query inp) = Inr qc \<and>
           qdrant B (search_request inp d s) = Inr resp \<and>
           reqs = [OllamaEmbeddings (query inp), Bm25Embed (query inp), ColbertEmbed (query inp),
                   QdrantQuery (search_request inp d s)] \<and>
           results_of qc (candidates_of resp) (topK inp) = Inr (results out) \<and>
           o_query out = query inp \<and>
           num_candidates out = length (candidates_of resp) \<and>
           num_results out = length (results out)"
  using assms
  by (auto simp: search_def Let_def split: sum.splits option.splits)

lemma search_ok:
  assumes "ollama B (query inp) = Inr d"
    and "fastembed_bm25 B (query inp) = Inr (Some s)"
    and "fastembed_colbert B (query inp) = Inr qc"
    and "qdrant B (search_request inp d s) = Inr resp"
    and "results_of qc (candidates_of resp) (topK inp) = Inr rs"
  shows "search B inp =
    ([OllamaEmbeddings (query inp), Bm25Embed (query inp), ColbertEmbed (query inp),
      QdrantQuery (search_request inp d s)],
     Inr \<lparr> o_query = query inp, results = rs,
           method_name = ''hybrid_with_colbert_reranking'',
           num_candidates = length (candidates_of resp), num_results = length rs \<rparr>)"
  using assms by (simp add: search_def Let_def)

text \<open>
  \<^bold>\<open>Claim C6\<close>, as the code has it. The node validates nothing. For every input, an empty
  query and a non-positive \<^verbatim>\<open>top_k\<close> included, the dense embedding request is issued
  first, with the query as given; and when the four services answer (the BM25 and ColBERT
  bodies carrying an \<^verbatim>\<open>embedding\<close>), all four requests are issued and the node returns
  its output.
\<close>

theorem search_no_validation:
  "(\<exists>rest. fst (search B inp) = OllamaEmbeddings (query inp) # rest) \<and>
   (ollama B (query inp) = Inr d \<and> fastembed_bm25 B (query inp) = Inr (Some s) \<and>
    fastembed_colbert B (query inp) = Inr (Some qVecs) \<and>
    qdrant B (search_request inp d s) = Inr resp \<longrightarrow>
    (\<exists>out. search B inp =
       ([OllamaEmbeddings (query inp), Bm25Embed (query inp), ColbertEmbed (query inp),
         QdrantQuery (search_request inp d s)], Inr out)))"
proof (intro conjI impI)
  show "\<exists>rest. fst (search B inp) = OllamaEmbeddings (query inp) # rest"
    by (auto simp: search_def Let_def split: sum.splits option.splits)
next
  assume h: "ollama B (query inp) = Inr d \<and> fastembed_bm25 B (query inp) = Inr (Some s) \<and>
    fastembed_colbert B (query inp) = Inr (Some qVecs) \<and>
    qdrant B (search_request inp d s) = Inr resp"
  have "\<exists>rs. results_of (Some qVecs) (candidates_of resp) (topK inp) = Inr rs"
    by (simp add: results_of_def)
  then obtain rs where "results_of (Some qVecs) (candidates_of resp) (topK inp) = Inr rs" ..
  with h search_ok [of B inp d s "Some qVecs" resp rs]
  show "\<exists>out. search B inp =
       ([OllamaEmbeddings (query inp), Bm25Embed (query inp), ColbertEmbed (query inp),
         QdrantQuery (search_request inp d s)], Inr out)"
    by blast
qed

theorem search_no_validation_witness:
  "(\<exists>rest. fst (search (ex_backend (Some [[1]]) (ex_response [])) (ex_input '''' (Some (-1)))) =
            OllamaEmbeddings '''' # rest) \<and>
   (\<exists>out. search (ex_backend (Some [[1]]) (ex_response [])) (ex_input '''' (Some (-1))) =
      (ex_requests (ex_input '''' (Some (-1))), Inr out))"
proof -
  let ?B = "ex_backend (Some [[1]]) (ex_response [])"
  let ?inp = "ex_input '''' (Some (-1))"
  have q: "query ?inp = ''''" by (simp add: ex_input_def)
  have h: "ollama ?B (query ?inp) = Inr (Some [1, 0]) \<and>
           fastembed_bm25 ?B (query ?inp) = Inr (Some ex_sparse) \<and>
           fastembed_colbert ?B (query ?inp) = Inr (Some [[1]]) \<and>
           qdrant ?B (search_request ?inp (Some [1, 0]) ex_sparse) = Inr (ex_response [])"
    by (simp add: ex_backend_def)
  from search_no_validation [of ?B ?inp "Some [1, 0]" ex_sparse "[[1]]" "ex_response []"] h
  show ?thesis unfolding ex_requests_def q by blast
qed

text \<open>
  The empty query with \<^verbatim>\<open>top_k = -1\<close>: four requests go out, the index is asked for
  \<open>-5\<close> candidates, and the node returns normally.
\<close>

theorem search_accepts_empty_query:
  "search (ex_backend (Some [[1]]) (ex_response [])) (ex_input '''' (Some (-1))) =
     (ex_requests (ex_input '''' (Some (-1))), Inr (ex_output '''' [] 0)) \<and>
   limit (search_request (ex_input '''' (Some (-1))) (Some [1, 0]) ex_sparse) = - 5"
  by (simp add: search_simps rerank_simps)




text \<open>
  \<^bold>\<open>Claim C8\<close>, as the code has it. The three embedding calls are three \<^verbatim>\<open>await\<close>
  statements in a row: dense, BM25, ColBERT. Each is issued once the one before has
  returned, and a call that throws ends the node before the later ones are issued.
\<close>

theorem embedding_calls_sequential:
  "(\<forall>e. ollama B (query inp) = Inl e \<longrightarrow> search B inp = ([OllamaEmbeddings (query inp)], Inl e)) \<and>
   (\<forall>d e. ollama B (query inp) = Inr d \<and> fastembed_bm25 B (query inp) = Inl e \<longrightarrow>
      search B inp = ([OllamaEmbeddings (query inp), Bm25Embed (query inp)], Inl e)) \<and>
   (\<forall>d s e. ollama B (query inp) = Inr d \<and> fastembed_bm25 B (query inp) = Inr s \<and>
      fastembed_colbert B (query inp) = Inl e \<longrightarrow>
      search B inp =
        ([OllamaEmbeddings (query inp), Bm25Embed (query inp), ColbertEmbed (query inp)], Inl e)) \<and>
   take 3 (fst (search B inp)) =
     take (length (fst (search B inp)))
       [OllamaEmbeddings (query inp), Bm25Embed (query inp), ColbertEmbed (query inp)]"
  by (auto simp: search_def Let_def split: sum.splits option.splits)

theorem embedding_calls_sequential_witness:
  "search (ex_services (Inl RequestFailed) (Inr (Some ex_sparse)) (Inr (Some [[1]]))) (ex_input ''q'' None) =
     ([OllamaEmbeddings ''q''], Inl RequestFailed) \<and>
   search (ex_services (Inr (Some [1, 0])) (Inl RequestFailed) (Inr (Some [[1]]))) (ex_input ''q'' None) =
     ([OllamaEmbeddings ''q'', Bm25Embed ''q''], Inl RequestFailed) \<and>
   search (ex_services (Inr (Some [1, 0])) (Inr (Some ex_sparse)) (Inl RequestFailed)) (ex_input ''q'' None) =
     ([OllamaEmbeddings ''q'', Bm25Embed ''q'', ColbertEmbed ''q''], Inl RequestFailed)"
proof -
  let ?inp = "ex_input ''q'' None"
  let ?B1 = "ex_services (Inl RequestFailed) (Inr (Some ex_sparse)) (Inr (Some [[1]]))"
  let ?B2 = "ex_services (Inr (Some [1, 0])) (Inl RequestFailed) (Inr (Some [[1]]))"
  let ?B3 = "ex_services (Inr (Some [1, 0])) (Inr (Some ex_sparse)) (Inl RequestFailed)"
  have q: "query ?inp = ''q''" by (simp add: ex_input_def)
  have 1: "ollama ?B1 (query ?inp) = Inl RequestFailed" by (simp add: ex_services_def)
  have 2: "ollama ?B2 (query ?inp) = Inr (Some [1, 0]) \<and>
           fastembed_bm25 ?B2 (query ?inp) = Inl RequestFailed"
    by (simp add: ex_services_def)
  have 3: "ollama ?B3 (query ?inp) = Inr (Some [1, 0]) \<and>
           fastembed_bm25 ?B3 (query ?inp) = Inr (Some ex_sparse) \<and>
           fastembed_colbert ?B3 (query ?inp) = Inl RequestFailed"
    by (simp add: ex_services_def)
  from embedding_calls_sequential [of ?B1 ?inp] 1
  have a: "search ?B1 ?inp = ([OllamaEmbeddings (query ?inp)], Inl RequestFailed)" by blast
  from embedding_calls_sequential [of ?B2 ?inp] 2
  have b: "search ?B2 ?inp = ([OllamaEmbeddings (query ?inp), Bm25Embed (query ?inp)], Inl RequestFailed)"
    by blast
  from embedding_calls_sequential [of ?B3 ?inp] 3
  have c: "search ?B3 ?inp =
     ([OllamaEmbeddings (query ?inp), Bm25Embed (query ?inp), ColbertEmbed (query ?inp)],
      Inl RequestFailed)"
    by blast
  from a b c show ?thesis unfolding q by blast
qed

text \<open>
  When the dense service fails and the two others would answer, only the dense request
  is ever issued. Three calls dispatched together would all have gone out.
\<close>

theorem embedding_calls_not_concurrent:
  "fst (search (ex_services (Inl RequestFailed) (Inr (Some ex_sparse)) (Inr (Some [[1]])))
          (ex_input ''q'' None)) = [OllamaEmbeddings ''q''] \<and>
   Bm25Embed ''q'' \<notin>
     set (fst (search (ex_services (Inl RequestFailed) (Inr (Some ex_sparse)) (Inr (Some [[1]])))
                 (ex_input ''q'' None))) \<and>
   ColbertEmbed ''q'' \<notin>
     set (fst (search (ex_services (Inl RequestFailed) (Inr (Some ex_sparse)) (Inr (Some [[1]])))
                 (ex_input ''q'' None)))"
  by (simp add: search_simps)

text \<open>
  \<^bold>\<open>Claim C9.\<close> When the index answers with a body that has no \<^verbatim>\<open>result\<close>, or whose
  \<^verbatim>\<open>result\<close> has no \<^verbatim>\<open>points\<close>, the node returns normally, with an empty result list
  and both counters at zero.
\<close>

theorem search_no_candidates:
  assumes "ollama B (query inp) = Inr d"
    and "fastembed_bm25 B (query inp) = Inr (Some s)"
    and "fastembed_colbert B (query inp) = Inr qc"
    and "qdrant B (search_request inp d s) = Inr resp"
    and "result resp = None \<or> (\<exists>r. result resp = Some r \<and> points r = None)"
  shows "snd (search B inp) =
           Inr \<lparr> o_query = query inp, results = [],
                 method_name = ''hybrid_with_colbert_reranking'',
                 num_candidates = 0, num_results = 0 \<rparr>"
proof -
  have c: "candidates_of resp = []"
    using assms(5) by (auto simp: candidates_of_def)
  have "results_of qc (candidates_of resp) (topK inp) = Inr []"
    by (simp add: c results_of_def)
  from search_ok [OF assms(1-4) this] show ?thesis by (simp add: c)
qed

theorem search_no_candidates_witness:
  "snd (search (ex_backend (Some [[1]]) \<lparr> result = None \<rparr>) (ex_input ''q'' None)) =
     Inr (ex_output ''q'' [] 0) \<and>
   snd (search (ex_backend None \<lparr> result = Some \<lparr> points = None \<rparr> \<rparr>) (ex_input ''q'' None)) =
     Inr (ex_output ''q'' [] 0)"
proof -
  let ?inp = "ex_input ''q'' None"
  let ?r1 = "\<lparr> result = None \<rparr>"
  let ?r2 = "\<lparr> result = Some \<lparr> points = None \<rparr> \<rparr>"
  let ?B1 = "ex_backend (Some [[1]]) ?r1"
  let ?B2 = "ex_backend None ?r2"
  have q: "query ?inp = ''q''" by (simp add: ex_input_def)
  have o: "ex_output ''q'' [] 0 =
     \<lparr> o_query = ''q'', results = [], method_name = ''hybrid_with_colbert_reranking'',
       num_candidates = 0, num_results = 0 \<rparr>"
    by (simp add: ex_output_def)
  have a1: "ollama ?B1 (query ?inp) = Inr (Some [1, 0])" by (simp add: ex_backend_def)
  have a2: "fastembed_bm25 ?B1 (query ?inp) = Inr (Some ex_sparse)" by (simp add: ex_backend_def)
  have a3: "fastembed_colbert ?B1 (query ?inp) = Inr (Some [[1]])" by (simp add: ex_backend_def)
  have a4: "qdrant ?B1 (search_request ?inp (Some [1, 0]) ex_sparse) = Inr ?r1"
    by (simp add: ex_backend_def)
  have a5: "result ?r1 = None \<or> (\<exists>r. result ?r1 = Some r \<and> points r = None)" by simp
  have b1: "ollama ?B2 (query ?inp) = Inr (Some [1, 0])" by (simp add: ex_backend_def)
  have b2: "fastembed_bm25 ?B2 (query ?inp) = Inr (Some ex_sparse)" by (simp add: ex_backend_def)
  have b3: "fastembed_colbert ?B2 (query ?inp) = Inr None" by (simp add: ex_backend_def)
  have b4: "qdrant ?B2 (search_request ?inp (Some [1, 0]) ex_sparse) = Inr ?r2"
    by (simp add: ex_backend_def)
  have b5: "result ?r2 = None \<or> (\<exists>r. result ?r2 = Some r \<and> points r = None)" by simp
  from search_no_candidates [OF a1 a2 a3 a4 a5] search_no_candidates [OF b1 b2 b3 b4 b5]
  show ?thesis unfolding q o by blast
qed

text \<open>
  \<^bold>\<open>Claim C10.\<close> Without a \<^verbatim>\<open>collection_name\<close> the node queries the collection
  \<^verbatim>\<open>hybrid_demo\<close>. With \<^verbatim>\<open>top_k\<close> absent or equal to 0 the effective \<open>topK\<close> is 3: the
  index is asked for 15 candidates and a search that returns has at most 3 results.
\<close>

theorem search_defaults:
  "(collection_name inp = None \<longrightarrow>
      collectionName inp = ''hybrid_demo'' \<and>
      collection (search_request inp d s) = ''hybrid_demo'') \<and>
   (top_k inp = None \<or> top_k inp = Some 0 \<longrightarrow>
      topK inp = 3 \<and>
      limit (search_request inp d s) = 15 \<and>
      (\<forall>B reqs out. search B inp = (reqs, Inr out) \<longrightarrow> length (results out) \<le> 3))"
proof (intro conjI impI)
  assume "collection_name inp = None"
  then show "collectionName inp = ''hybrid_demo''" by (simp add: collectionName_def)
  then show "collection (search_request inp d s) = ''hybrid_demo''" by (simp add: search_request_def)
next
  assume h: "top_k inp = None \<or> top_k inp = Some 0"
  then show k: "topK inp = 3" by (auto simp: topK_def)
  then show "limit (search_request inp d s) = 15"
    by (simp add: search_request_def candidateMultiplier_def)
  show "\<forall>B reqs out. search B inp = (reqs, Inr out) \<longrightarrow> length (results out) \<le> 3"
  proof (intro allI impI)
    fix B reqs out
    assume "search B inp = (reqs, Inr out)"
    from search_Inr [OF this] obtain qc resp where
      "results_of qc (candidates_of resp) (topK inp) = Inr (results out)" by blast
    from results_of_Inr [OF this] obtain q where "results out = rerank q (candidates_of resp) 3"
      using k by auto
    then show "length (results out) \<le> 3"
      using length_rerank [of 3 q "candidates_of resp"] by simp
  qed
qed

theorem search_defaults_witness:
  "collectionName (ex_input ''q'' (Some 0)) = ''hybrid_demo'' \<and>
   collection (search_request (ex_input ''q'' (Some 0)) (Some [1, 0]) ex_sparse) = ''hybrid_demo'' \<and>
   topK (ex_input ''q'' (Some 0)) = 3 \<and>
   limit (search_request (ex_input ''q'' (Some 0)) (Some [1, 0]) ex_sparse) = 15 \<and>
   search (ex_backend (Some [[1]]) (ex_response ex_four)) (ex_input ''q'' (Some 0)) =
     (ex_requests (ex_input ''q'' (Some 0)),
      Inr (ex_output ''q''
             [ex_scored 1 1 (Num 1) (Num 1), ex_scored 2 1 (Num 1) (Num 1),
              ex_scored 3 0 (Num 1) (Num lateInteractionWeight)] 4)) \<and>
   length (results (ex_output ''q''
             [ex_scored 1 1 (Num 1) (Num 1), ex_scored 2 1 (Num 1) (Num 1),
              ex_scored 3 0 (Num 1) (Num lateInteractionWeight)] 4)) \<le> 3"
proof -
  let ?inp = "ex_input ''q'' (Some 0)"
  let ?out = "ex_output ''q''
             [ex_scored 1 1 (Num 1) (Num 1), ex_scored 2 1 (Num 1) (Num 1),
              ex_scored 3 0 (Num 1) (Num lateInteractionWeight)] 4"
  have c: "collection_name ?inp = None" by (simp add: ex_input_def)
  have k: "top_k ?inp = None \<or> top_k ?inp = Some 0" by (simp add: ex_input_def)
  have h: "search (ex_backend (Some [[1]]) (ex_response ex_four)) ?inp = (ex_requests ?inp, Inr ?out)"
    by (simp add: search_simps rerank_simps score_simps)
  from search_defaults [of ?inp "Some [1, 0]" ex_sparse] c k h
  show ?thesis by blast
qed

end
